theory Spec2Isabelle
  imports Main "HOL-Library.Sublist"
begin

section \<open>JavaScript values and the runtime the services rely on\<close>

text \<open>
  The two services (\<^verbatim>\<open>conversationParserService.js\<close> and
  \<^verbatim>\<open>artifactExtractorService.js\<close>) work on decoded JSON lines. A decoded value is
  a \<open>jsval\<close>; \<open>JUndef\<close> is what reading a missing property gives. Objects are
  association lists (first binding of a key is the one read). Numbers are modelled as
  integers and strings as lists of \<open>char\<close>, one \<open>char\<close> standing for one code unit.
  What the services write to their log is left out.
\<close>

datatype jsval =
    JUndef
  | JNull
  | JBool bool
  | JNum int
  | JStr string
  | JArr "jsval list"
  | JObj "(string \<times> jsval) list"

text \<open>Truthiness, as tested by \<^verbatim>\<open>if (v)\<close>, \<^verbatim>\<open>!v\<close>, \<^verbatim>\<open>v || d\<close> and \<^verbatim>\<open>c ? a : b\<close>.\<close>

fun truthy :: "jsval \<Rightarrow> bool" where
  "truthy JUndef = False"
| "truthy JNull = False"
| "truthy (JBool b) = b"
| "truthy (JNum n) = (n \<noteq> 0)"
| "truthy (JStr s) = (s \<noteq> [])"
| "truthy (JArr xs) = True"
| "truthy (JObj kvs) = True"

text \<open>\<^verbatim>\<open>v || d\<close>\<close>

definition orElse :: "jsval \<Rightarrow> jsval \<Rightarrow> jsval" where
  "orElse v d = (if truthy v then v else d)"

text \<open>
  Property read \<^verbatim>\<open>v.k\<close>: a TypeError (\<open>None\<close>) on \<^verbatim>\<open>null\<close> and
  \<^verbatim>\<open>undefined\<close>, the bound value on an object that has the key, \<^verbatim>\<open>undefined\<close>
  otherwise. None of the property names the services read is defined on strings,
  numbers, booleans or arrays.
\<close>

fun getProp :: "string \<Rightarrow> jsval \<Rightarrow> jsval option" where
  "getProp k JUndef = None"
| "getProp k JNull = None"
| "getProp k (JObj kvs) = Some (case map_of kvs k of None \<Rightarrow> JUndef | Some v \<Rightarrow> v)"
| "getProp k v = Some JUndef"

text \<open>Optional chaining \<^verbatim>\<open>v?.k\<close>: \<^verbatim>\<open>undefined\<close> on \<^verbatim>\<open>null\<close> and \<^verbatim>\<open>undefined\<close>, never an error.\<close>

definition optProp :: "string \<Rightarrow> jsval \<Rightarrow> jsval" where
  "optProp k v = (case getProp k v of None \<Rightarrow> JUndef | Some w \<Rightarrow> w)"

definition isNullish :: "jsval \<Rightarrow> bool" where
  "isNullish v = (v = JNull \<or> v = JUndef)"

fun isString :: "jsval \<Rightarrow> bool" where
  "isString (JStr s) = True"
| "isString v = False"

fun isArray :: "jsval \<Rightarrow> bool" where
  "isArray (JArr xs) = True"
| "isArray v = False"

fun arrayItems :: "jsval \<Rightarrow> jsval list" where
  "arrayItems (JArr xs) = xs"
| "arrayItems v = []"

fun strOf :: "jsval \<Rightarrow> string" where
  "strOf (JStr s) = s"
| "strOf v = []"

text \<open>
  The runtime and library functions the services call but do not define: the SHA-256
  digest, \<^verbatim>\<open>JSON.parse\<close> (\<open>None\<close> when it throws), \<^verbatim>\<open>JSON.stringify\<close> on a defined
  value (compact, and with indentation 2), the string conversion of a value used by
  \<^verbatim>\<open>+\<close>, template literals and \<^verbatim>\<open>join\<close>, \<^verbatim>\<open>Object.keys\<close>, the split of a transcript on the role
  markers \<^verbatim>\<open>/^(Human:|Assistant:|>)\s*/gm\<close>, the SQL aggregates with the date
  arithmetic behind the conversation statistics (earliest, latest, duration), and the
  two conversions of SQLite between numbers and text: the text a \<^verbatim>\<open>TEXT\<close>
  column keeps of a number, and the number an \<^verbatim>\<open>INTEGER\<close> column keeps of a
  text that reads as one (\<open>None\<close> where it does not).
\<close>

record lib =
  sha256 :: "string \<Rightarrow> string"
  json_parse :: "string \<Rightarrow> jsval option"
  json_stringify :: "jsval \<Rightarrow> string"
  json_stringify2 :: "jsval \<Rightarrow> string"
  to_string :: "jsval \<Rightarrow> string"
  object_keys :: "jsval \<Rightarrow> string list"
  split_roles :: "string \<Rightarrow> string list"
  time_stats :: "jsval list \<Rightarrow> jsval \<times> jsval \<times> jsval"
  number_text :: "int \<Rightarrow> string"
  text_number :: "string \<Rightarrow> int option"

text \<open>\<^verbatim>\<open>JSON.stringify(v)\<close> is \<^verbatim>\<open>undefined\<close> on \<^verbatim>\<open>undefined\<close>.\<close>

definition jsonStringify :: "lib \<Rightarrow> jsval \<Rightarrow> jsval" where
  "jsonStringify L v = (if v = JUndef then JUndef else JStr (json_stringify L v))"

definition jsonStringify2 :: "lib \<Rightarrow> jsval \<Rightarrow> jsval" where
  "jsonStringify2 L v = (if v = JUndef then JUndef else JStr (json_stringify2 L v))"

text \<open>An object literal handed to \<^verbatim>\<open>JSON.stringify\<close>: properties whose value is \<^verbatim>\<open>undefined\<close> are left out.\<close>

definition objLit :: "(string \<times> jsval) list \<Rightarrow> jsval" where
  "objLit kvs = JObj (filter (\<lambda>kv. snd kv \<noteq> JUndef) kvs)"

text \<open>String conversion: a string is itself, anything else goes through the runtime.\<close>

definition toStr :: "lib \<Rightarrow> jsval \<Rightarrow> string" where
  "toStr L v = (case v of JStr s \<Rightarrow> s | _ \<Rightarrow> to_string L v)"

text \<open>An element of \<^verbatim>\<open>array.join(sep)\<close>: \<^verbatim>\<open>null\<close> and \<^verbatim>\<open>undefined\<close> give the empty string.\<close>

definition joinItem :: "lib \<Rightarrow> jsval \<Rightarrow> string" where
  "joinItem L v = (if isNullish v then [] else toStr L v)"

fun joinWith :: "string \<Rightarrow> string list \<Rightarrow> string" where
  "joinWith sep [] = []"
| "joinWith sep [x] = x"
| "joinWith sep (x # y # ys) = x @ sep @ joinWith sep (y # ys)"

text \<open>A call that throws gives \<open>None\<close>; a \<^verbatim>\<open>map\<close> over an array throws when one call does.\<close>

fun allSome :: "'a option list \<Rightarrow> 'a list option" where
  "allSome [] = Some []"
| "allSome (None # xs) = None"
| "allSome (Some x # xs) = (case allSome xs of None \<Rightarrow> None | Some ys \<Rightarrow> Some (x # ys))"

subsection \<open>String functions\<close>

text \<open>\<^verbatim>\<open>s.includes(p)\<close>\<close>

fun str_includes :: "string \<Rightarrow> string \<Rightarrow> bool" where
  "str_includes [] p = (p = [])"
| "str_includes (c # cs) p = (prefix p (c # cs) \<or> str_includes cs p)"

text \<open>\<^verbatim>\<open>toLowerCase\<close> on code units below 256: A-Z, and the Latin-1 capitals except the multiplication sign.\<close>

definition lowerChar :: "char \<Rightarrow> char" where
  "lowerChar c = (let n = (of_char c :: nat) in
     if (65 \<le> n \<and> n \<le> 90) \<or> (192 \<le> n \<and> n \<le> 222 \<and> n \<noteq> 215) then char_of (n + 32) else c)"

definition toLowerCase :: "string \<Rightarrow> string" where
  "toLowerCase s = map lowerChar s"

text \<open>White space and line terminators, as \<^verbatim>\<open>trim\<close> and \<^verbatim>\<open>\s\<close> see them (code units below 256).\<close>

definition isSpace :: "char \<Rightarrow> bool" where
  "isSpace c = (let n = (of_char c :: nat) in (9 \<le> n \<and> n \<le> 13) \<or> n = 32 \<or> n = 160)"

definition trim :: "string \<Rightarrow> string" where
  "trim s = rev (dropWhile isSpace (rev (dropWhile isSpace s)))"

text \<open>\<^verbatim>\<open>s.slice(0, n)\<close> and \<^verbatim>\<open>s.slice(-n)\<close> for a positive constant \<open>n\<close>.\<close>

definition newline :: char where
  "newline = CHR 0x0A"

text \<open>\<^verbatim>\<open>s.split(d)\<close> on a one-character separator: never the empty array.\<close>

fun splitOn :: "char \<Rightarrow> string \<Rightarrow> string list" where
  "splitOn d [] = [[]]"
| "splitOn d (c # cs) =
     (if c = d then [] # splitOn d cs
      else (case splitOn d cs of [] \<Rightarrow> [[c]] | x # xs \<Rightarrow> (c # x) # xs))"

text \<open>\<^verbatim>\<open>content.split('\n').filter(line => line.trim())\<close>\<close>

definition nonEmptyLines :: "string \<Rightarrow> string list" where
  "nonEmptyLines content = filter (\<lambda>line. trim line \<noteq> []) (splitOn newline content)"

text \<open>The last element of a split on the characters \<open>sep\<close> accepts: \<^verbatim>\<open>s.split(sep).pop()\<close>.\<close>

definition lastSegment :: "(char \<Rightarrow> bool) \<Rightarrow> string \<Rightarrow> string" where
  "lastSegment sep s = rev (takeWhile (\<lambda>c. \<not> sep c) (rev s))"

text \<open>\<^verbatim>\<open>s.replace(p, r)\<close> with a string pattern: the first occurrence only.\<close>

fun replaceFirst :: "string \<Rightarrow> string \<Rightarrow> string \<Rightarrow> string" where
  "replaceFirst p r [] = (if p = [] then r else [])"
| "replaceFirst p r (c # cs) =
     (if prefix p (c # cs) then r @ drop (length p) (c # cs) else c # replaceFirst p r cs)"

definition sliceTo :: "nat \<Rightarrow> 'a list \<Rightarrow> 'a list" where
  "sliceTo n s = take n s"

definition sliceLast :: "nat \<Rightarrow> 'a list \<Rightarrow> 'a list" where
  "sliceLast n s = drop (length s - n) s"

section \<open>Artifact extractor: error classification\<close>

text \<open>
  \<^verbatim>\<open>classifyError(output, errorMessage)\<close>. The second argument is a string or is not
  passed, so \<^verbatim>\<open>(output || '') + (errorMessage || '')\<close> is a string concatenation.
\<close>

definition combinedText :: "lib \<Rightarrow> jsval \<Rightarrow> string option \<Rightarrow> string" where
  "combinedText L output errorMessage =
     toStr L (orElse output (JStr [])) @ (case errorMessage of None \<Rightarrow> [] | Some e \<Rightarrow> e)"

definition classifyError :: "lib \<Rightarrow> jsval \<Rightarrow> string option \<Rightarrow> string" where
  "classifyError L output errorMessage =
     (let lowerText = toLowerCase (combinedText L output errorMessage) in
      if str_includes lowerText ''permission denied'' \<or> str_includes lowerText ''access denied'' then ''permission''
      else if str_includes lowerText ''not found'' \<or> str_includes lowerText ''no such file'' then ''not_found''
      else if str_includes lowerText ''timeout'' \<or> str_includes lowerText ''timed out'' then ''timeout''
      else if str_includes lowerText ''connection'' \<or> str_includes lowerText ''network'' then ''network''
      else if str_includes lowerText ''syntax error'' \<or> str_includes lowerText ''parse error'' then ''syntax''
      else if str_includes lowerText ''validation'' \<or> str_includes lowerText ''invalid'' then ''validation''
      else ''unknown'')"

text \<open>
  The rule table as the specification words it: an ordered list of (phrases, category),
  read top to bottom, the first rule with a phrase in the text giving the category.
\<close>

definition errorRules :: "(string list \<times> string) list" where
  "errorRules =
     [([''permission denied'', ''access denied''], ''permission''),
      ([''not found'', ''no such file''], ''not_found''),
      ([''timeout'', ''timed out''], ''timeout''),
      ([''connection'', ''network''], ''network''),
      ([''syntax error'', ''parse error''], ''syntax''),
      ([''validation'', ''invalid''], ''validation'')]"

definition ruleMatches :: "string \<Rightarrow> string list \<times> string \<Rightarrow> bool" where
  "ruleMatches t r = list_ex (str_includes t) (fst r)"

fun firstMatch :: "(string list \<times> string) list \<Rightarrow> string \<Rightarrow> string" where
  "firstMatch [] t = ''unknown''"
| "firstMatch (r # rs) t = (if ruleMatches t r then snd r else firstMatch rs t)"

section \<open>The store\<close>

text \<open>
  The SQLite tables of \<^verbatim>\<open>server/index.js\<close> the services read and write, as lists
  of rows in insertion order. \<^verbatim>\<open>conversation_entries\<close> carries
  \<^verbatim>\<open>UNIQUE(conversation_id, entry_hash)\<close> and \<^verbatim>\<open>role TEXT NOT NULL\<close>;
  \<^verbatim>\<open>artifacts\<close> carries no uniqueness constraint; \<^verbatim>\<open>conversation_parse_state\<close>
  has one row per \<^verbatim>\<open>file_path\<close>. The columns filled by \<^verbatim>\<open>datetime('now')\<close> and
  the artifact row ids are left out. The foreign keys of the tables are not enforced:
  whether SQLite enforces them is a setting of the connection, and the connection is
  opened outside the two services.
\<close>

record conversation =
  c_id :: nat
  c_conversation_id :: jsval
  c_project_id :: jsval
  c_source_file_path :: string
  c_source_file_type :: string
  c_started_at :: jsval
  c_ended_at :: jsval
  c_duration_seconds :: jsval
  c_message_count :: nat
  c_model_used :: jsval
  c_claude_code_version :: jsval
  c_git_branch :: jsval
  c_working_directory :: jsval

record entry =
  e_id :: nat
  e_conversation_id :: nat
  e_entry_hash :: string
  e_entry_index :: nat
  e_role :: jsval
  e_content :: string
  e_timestamp :: jsval

record parse_state =
  ps_last_line_number :: nat
  ps_last_entry_hash :: jsval

record artifact =
  a_conversationId :: nat
  a_entryId :: jsval
  a_type :: string
  a_language :: jsval
  a_toolName :: jsval
  a_content :: jsval
  a_metadata :: jsval
  a_contentHash :: string
  a_outcome :: jsval
  a_outputSummary :: jsval
  a_outputFull :: jsval
  a_outputSizeBytes :: jsval
  a_outputTruncated :: jsval
  a_errorType :: jsval
  a_promptContext :: jsval
  a_followUpAction :: jsval

record store =
  conversations :: "conversation list"
  conversation_entries :: "entry list"
  artifacts :: "artifact list"
  conversation_parse_state :: "(string \<times> parse_state) list"

definition emptyStore :: store where
  "emptyStore = \<lparr>conversations = [], conversation_entries = [], artifacts = [], conversation_parse_state = []\<rparr>"

text \<open>
  The values of a statement are bound by the database driver, which takes numbers,
  strings and \<^verbatim>\<open>null\<close> (and \<^verbatim>\<open>undefined\<close> as \<^verbatim>\<open>null\<close>) and throws a
  TypeError on a boolean, an array or an object, before the statement runs.
\<close>

fun bindable :: "jsval \<Rightarrow> bool" where
  "bindable (JBool b) = False"
| "bindable (JArr xs) = False"
| "bindable (JObj kvs) = False"
| "bindable v = True"

text \<open>
  What a column keeps of a bound value: a \<^verbatim>\<open>TEXT\<close> column turns a number into
  text, an \<^verbatim>\<open>INTEGER\<close> column turns a text that reads as a number into that number.
\<close>

definition asText :: "lib \<Rightarrow> jsval \<Rightarrow> jsval" where
  "asText L v = (case v of JNum n \<Rightarrow> JStr (number_text L n) | JUndef \<Rightarrow> JNull | _ \<Rightarrow> v)"

definition asInteger :: "lib \<Rightarrow> jsval \<Rightarrow> jsval" where
  "asInteger L v =
     (case v of
        JStr s \<Rightarrow> (case text_number L s of None \<Rightarrow> JStr s | Some n \<Rightarrow> JNum n)
      | JUndef \<Rightarrow> JNull
      | _ \<Rightarrow> v)"

text \<open>The file system: the content of each file that exists.\<close>

type_synonym files = "string \<Rightarrow> string option"

text \<open>\<^verbatim>\<open>INTEGER PRIMARY KEY AUTOINCREMENT\<close>: one more than every id handed out (rows are never deleted).\<close>

definition nextId :: "nat list \<Rightarrow> nat" where
  "nextId ids = Suc (fold max ids 0)"

text \<open>Insert, or replace the row of the same key in place (\<^verbatim>\<open>ON CONFLICT ... DO UPDATE\<close>, \<^verbatim>\<open>Map.set\<close>).\<close>

fun upsert :: "'k \<Rightarrow> 'v \<Rightarrow> ('k \<times> 'v) list \<Rightarrow> ('k \<times> 'v) list" where
  "upsert k v [] = [(k, v)]"
| "upsert k v (kv # kvs) = (if fst kv = k then (k, v) # kvs else kv # upsert k v kvs)"

section \<open>Conversation parser service\<close>

definition getParseState :: "store \<Rightarrow> string \<Rightarrow> parse_state option" where
  "getParseState db filePath = map_of (conversation_parse_state db) filePath"

definition updateParseState :: "string \<Rightarrow> nat \<Rightarrow> jsval \<Rightarrow> store \<Rightarrow> store" where
  "updateParseState filePath lineNumber entryHash db =
     db\<lparr>conversation_parse_state :=
          upsert filePath \<lparr>ps_last_line_number = lineNumber, ps_last_entry_hash = entryHash\<rparr>
            (conversation_parse_state db)\<rparr>"

record metadata =
  m_version :: jsval
  m_gitBranch :: jsval
  m_cwd :: jsval
  m_model :: jsval

definition noMetadata :: metadata where
  "noMetadata = \<lparr>m_version = JUndef, m_gitBranch = JUndef, m_cwd = JUndef, m_model = JUndef\<rparr>"

text \<open>
  \<^verbatim>\<open>SELECT * FROM conversations WHERE conversation_id = ?\<close>: the column is
  \<^verbatim>\<open>TEXT\<close>, so the bound value is compared as text; \<^verbatim>\<open>NULL\<close> is equal to
  nothing.
\<close>

definition selectConversation :: "store \<Rightarrow> jsval \<Rightarrow> conversation option" where
  "selectConversation db key =
     (if key = JNull then None else find (\<lambda>c. c_conversation_id c = key) (conversations db))"

text \<open>
  \<^verbatim>\<open>findOrCreateConversation\<close>: the row found or created, with the store. \<open>None\<close>
  stands for an exception: the driver refusing the session id or, where a row is to be
  created, one of the four metadata values; or no row coming back from the second
  \<^verbatim>\<open>SELECT\<close>, on which both callers throw when they read \<^verbatim>\<open>conversation.id\<close>.
\<close>

definition findOrCreateConversation ::
  "lib \<Rightarrow> jsval \<Rightarrow> string \<Rightarrow> string \<Rightarrow> metadata \<Rightarrow> store \<Rightarrow> conversation option \<times> store" where
  "findOrCreateConversation L sessionId filePath fileType md db =
     (if \<not> bindable sessionId then (None, db)
      else
        (case selectConversation db (asText L sessionId) of
           Some conversation \<Rightarrow> (Some conversation, db)
         | None \<Rightarrow>
             (let model = orElse (m_model md) JNull;
                  version = orElse (m_version md) JNull;
                  gitBranch = orElse (m_gitBranch md) JNull;
                  cwd = orElse (m_cwd md) JNull
              in if \<not> (bindable model \<and> bindable version \<and> bindable gitBranch \<and> bindable cwd)
                 then (None, db)
                 else
                   (let created =
                          \<lparr>c_id = nextId (map c_id (conversations db)),
                           c_conversation_id = asText L sessionId,
                           c_project_id = JNull,
                           c_source_file_path = filePath,
                           c_source_file_type = fileType,
                           c_started_at = JNull,
                           c_ended_at = JNull,
                           c_duration_seconds = JNull,
                           c_message_count = 0,
                           c_model_used = asText L model,
                           c_claude_code_version = asText L version,
                           c_git_branch = asText L gitBranch,
                           c_working_directory = asText L cwd\<rparr>;
                        db1 = db\<lparr>conversations := conversations db @ [created]\<rparr>
                    in (selectConversation db1 (asText L sessionId), db1)))))"

text \<open>
  \<^verbatim>\<open>insertEntry\<close>: \<open>Some True\<close> when the row went in, \<open>Some False\<close> when the store
  refused it with its UNIQUE constraint, \<open>None\<close> when the error is another one and is
  thrown again: the driver refusing the role or the timestamp, or a null role against
  \<^verbatim>\<open>NOT NULL\<close>, which the store checks before uniqueness. The role and the timestamp
  go into \<^verbatim>\<open>TEXT\<close> columns.
\<close>

definition entryExists :: "store \<Rightarrow> nat \<Rightarrow> string \<Rightarrow> bool" where
  "entryExists db conversationId entryHash =
     list_ex (\<lambda>e. e_conversation_id e = conversationId \<and> e_entry_hash e = entryHash) (conversation_entries db)"

definition insertEntry ::
  "lib \<Rightarrow> nat \<Rightarrow> string \<Rightarrow> nat \<Rightarrow> jsval \<Rightarrow> string \<Rightarrow> jsval \<Rightarrow> store \<Rightarrow> bool option \<times> store" where
  "insertEntry L conversationId entryHash entryIndex role content timestamp db =
     (if \<not> bindable role \<or> \<not> bindable timestamp then (None, db)
      else if isNullish role then (None, db)
      else if entryExists db conversationId entryHash then (Some False, db)
      else (Some True,
            db\<lparr>conversation_entries := conversation_entries db @
               [\<lparr>e_id = nextId (map e_id (conversation_entries db)),
                 e_conversation_id = conversationId,
                 e_entry_hash = entryHash,
                 e_entry_index = entryIndex,
                 e_role = asText L role,
                 e_content = content,
                 e_timestamp = asText L timestamp\<rparr>]\<rparr>))"

definition updateConversationStats :: "lib \<Rightarrow> nat \<Rightarrow> store \<Rightarrow> store" where
  "updateConversationStats L conversationId db =
     (let rows = filter (\<lambda>e. e_conversation_id e = conversationId) (conversation_entries db);
          stats = time_stats L (map e_timestamp rows)
      in db\<lparr>conversations :=
              map (\<lambda>c. if c_id c = conversationId
                        then c\<lparr>c_message_count := length rows,
                               c_started_at := fst stats,
                               c_ended_at := fst (snd stats),
                               c_duration_seconds := snd (snd stats)\<rparr>
                        else c)
                (conversations db)\<rparr>)"

text \<open>\<^verbatim>\<open>extractRole(entry)\<close>; \<open>None\<close> is the TypeError of reading a property of \<^verbatim>\<open>null\<close>.\<close>

definition extractRole :: "jsval \<Rightarrow> jsval option" where
  "extractRole entry =
     (if isNullish entry then None
      else if truthy (optProp ''role'' (optProp ''message'' entry))
        then Some (optProp ''role'' (optProp ''message'' entry))
      else if optProp ''type'' entry = JStr ''user'' then Some (JStr ''user'')
      else if optProp ''type'' entry = JStr ''assistant'' then Some (JStr ''assistant'')
      else if optProp ''type'' entry = JStr ''tool_result'' \<or> optProp ''type'' entry = JStr ''tool''
        then Some (JStr ''tool'')
      else Some (JStr ''system''))"

text \<open>One block of an array content, as the callback of \<^verbatim>\<open>content.map\<close> renders it.\<close>

definition renderBlock :: "lib \<Rightarrow> jsval \<Rightarrow> jsval option" where
  "renderBlock L block =
     (if isString block then Some block
      else if isNullish block then None
      else if optProp ''type'' block = JStr ''text'' then Some (optProp ''text'' block)
      else if optProp ''type'' block = JStr ''tool_use'' then
        Some (JStr (''[Tool: '' @ toStr L (optProp ''name'' block) @ '']'' @ [newline]
                    @ toStr L (jsonStringify2 L (optProp ''input'' block))))
      else if optProp ''type'' block = JStr ''tool_result'' then
        (let result = (if isString (optProp ''content'' block) then optProp ''content'' block
                       else jsonStringify L (optProp ''content'' block))
         in Some (JStr (''[Tool Result: '' @ toStr L (optProp ''tool_use_id'' block) @ '']'' @ [newline]
                        @ toStr L result)))
      else Some (jsonStringify L block))"

text \<open>\<^verbatim>\<open>extractContent(entry)\<close>: \<^verbatim>\<open>null\<close> or a string; \<open>None\<close> when it throws.\<close>

definition extractContent :: "lib \<Rightarrow> jsval \<Rightarrow> jsval option" where
  "extractContent L entry =
     (if isNullish entry then None
      else (let content = optProp ''content'' (optProp ''message'' entry) in
        if \<not> truthy content then Some JNull
        else if isArray content then
          (case allSome (map (renderBlock L) (arrayItems content)) of
             None \<Rightarrow> None
           | Some rendered \<Rightarrow> Some (JStr (joinWith [newline, newline] (map (joinItem L) rendered))))
        else Some (if isString content then content else jsonStringify L content)))"

text \<open>The typed failures and the report of a parse.\<close>

datatype parse_error = FileNotFound | UnknownFormat

record parse_report =
  r_conversationId :: "nat option"
  r_sessionId :: "jsval option"
  r_newEntries :: nat
  r_skipped :: nat
  r_totalLines :: "nat option"

definition nothingNew :: parse_report where
  "nothingNew = \<lparr>r_conversationId = None, r_sessionId = None, r_newEntries = 0, r_skipped = 0,
                  r_totalLines = None\<rparr>"

text \<open>First pass of \<^verbatim>\<open>parseJSONL\<close>: the session id and metadata of the first line that carries one.\<close>

fun findSession :: "lib \<Rightarrow> string list \<Rightarrow> jsval \<times> metadata \<Rightarrow> jsval \<times> metadata" where
  "findSession L [] acc = acc"
| "findSession L (line # rest) acc =
     findSession L rest
       (case json_parse L line of
          None \<Rightarrow> acc
        | Some entry \<Rightarrow>
            if isNullish entry then acc
            else if truthy (optProp ''sessionId'' entry) \<and> \<not> truthy (fst acc) then
              (optProp ''sessionId'' entry,
               \<lparr>m_version = optProp ''version'' entry,
                m_gitBranch = optProp ''gitBranch'' entry,
                m_cwd = optProp ''cwd'' entry,
                m_model = optProp ''model'' entry\<rparr>)
            else acc)"

text \<open>The running state of the main loop of \<^verbatim>\<open>parseJSONL\<close>.\<close>

record parse_loop =
  newEntries :: nat
  skipped :: nat
  entryIndex :: nat
  lastHash :: jsval
  pdb :: store

text \<open>
  The body of the loop over the new lines. The \<^verbatim>\<open>try\<close> covers the whole body, so
  a line that does not decode, a TypeError and an error thrown again by
  \<^verbatim>\<open>insertEntry\<close> all leave the counters as they were.
\<close>

definition parseLine :: "lib \<Rightarrow> nat \<Rightarrow> string \<Rightarrow> parse_loop \<Rightarrow> parse_loop" where
  "parseLine L conversationId line st =
     (let lineHash = sha256 L line in
      case json_parse L line of
        None \<Rightarrow> st
      | Some entry \<Rightarrow>
          (case getProp ''type'' entry of
             None \<Rightarrow> st
           | Some ty \<Rightarrow>
               if ty \<noteq> JStr ''user'' \<and> ty \<noteq> JStr ''assistant'' \<and> ty \<noteq> JStr ''tool_result'' then st
               else
                 (case extractRole entry of
                    None \<Rightarrow> st
                  | Some role \<Rightarrow>
                      (case extractContent L entry of
                         None \<Rightarrow> st
                       | Some content \<Rightarrow>
                           if \<not> truthy content then st
                           else
                             (case insertEntry L conversationId lineHash (entryIndex st) role
                                     (strOf content) (orElse (optProp ''timestamp'' entry) JNull) (pdb st) of
                                (None, db') \<Rightarrow> st\<lparr>pdb := db'\<rparr>
                              | (Some inserted, db') \<Rightarrow>
                                  st\<lparr>newEntries := (if inserted then newEntries st + 1 else newEntries st),
                                     skipped := (if inserted then skipped st else skipped st + 1),
                                     entryIndex := entryIndex st + 1,
                                     lastHash := JStr lineHash,
                                     pdb := db'\<rparr>)))))"

fun parseLines :: "lib \<Rightarrow> nat \<Rightarrow> string list \<Rightarrow> parse_loop \<Rightarrow> parse_loop" where
  "parseLines L conversationId [] st = st"
| "parseLines L conversationId (line # rest) st =
     parseLines L conversationId rest (parseLine L conversationId line st)"

definition isPathSep :: "char \<Rightarrow> bool" where
  "isPathSep c = (c = CHR ''/'' \<or> c = CHR 0x5C)"

text \<open>
  The update of \<^verbatim>\<open>project_id\<close> both parsers make after the conversation is found:
  \<open>None\<close> when the driver refuses the project id. The column is \<^verbatim>\<open>INTEGER\<close>.
\<close>

definition setProject :: "lib \<Rightarrow> jsval \<Rightarrow> conversation \<Rightarrow> store \<Rightarrow> store option" where
  "setProject L projectId conversation db =
     (if truthy projectId \<and> \<not> truthy (c_project_id conversation)
      then (if \<not> bindable projectId then None
            else Some (db\<lparr>conversations :=
                   map (\<lambda>c. if c_id c = c_id conversation then c\<lparr>c_project_id := asInteger L projectId\<rparr> else c)
                     (conversations db)\<rparr>))
      else Some db)"

text \<open>
  \<^verbatim>\<open>parseJSONL\<close>: \<open>None\<close> when an exception leaves the function, which the
  statements before the loop over the lines can do, being outside every \<^verbatim>\<open>try\<close>;
  the store is then as the statements before left it.
\<close>

definition parseJSONL ::
  "lib \<Rightarrow> files \<Rightarrow> string \<Rightarrow> jsval \<Rightarrow> store \<Rightarrow> (parse_error + parse_report) option \<times> store" where
  "parseJSONL L fs filePath projectId db =
     (case fs filePath of
        None \<Rightarrow> (Some (Inl FileNotFound), db)
      | Some content \<Rightarrow>
          (let startLine = (case getParseState db filePath of None \<Rightarrow> 0
                            | Some parseState \<Rightarrow> ps_last_line_number parseState);
               lines = nonEmptyLines content
           in if length lines \<le> startLine then (Some (Inr nothingNew), db)
              else
                (let found = findSession L lines (JNull, noMetadata);
                     sessionId = (if truthy (fst found) then fst found
                                  else JStr (replaceFirst ''.jsonl'' [] (lastSegment isPathSep filePath)))
                 in case findOrCreateConversation L sessionId filePath ''jsonl'' (snd found) db of
                      (None, db0) \<Rightarrow> (None, db0)
                    | (Some conversation, db0) \<Rightarrow>
                        (case setProject L projectId conversation db0 of
                           None \<Rightarrow> (None, db0)
                         | Some db1 \<Rightarrow>
                             (let conversationId = c_id conversation;
                                  st = parseLines L conversationId (drop startLine lines)
                                         \<lparr>newEntries = 0, skipped = 0, entryIndex = startLine,
                                          lastHash = JNull, pdb = db1\<rparr>;
                                  db2 = (if newEntries st > 0 \<or> length lines > startLine
                                         then updateConversationStats L conversationId
                                                (updateParseState filePath (length lines) (lastHash st) (pdb st))
                                         else pdb st)
                              in (Some (Inr \<lparr>r_conversationId = Some conversationId,
                                             r_sessionId = Some sessionId,
                                             r_newEntries = newEntries st, r_skipped = skipped st,
                                             r_totalLines = Some (length lines)\<rparr>), db2))))))"

text \<open>
  The loop of \<^verbatim>\<open>parseTXT\<close> over the segments: a marker sets the current role, any
  other segment is hashed and inserted. \<^verbatim>\<open>insertEntry\<close> is not inside a
  \<^verbatim>\<open>try\<close> here, so an error it throws leaves the function (\<open>None\<close>).
\<close>

record txt_loop =
  t_newEntries :: nat
  t_skipped :: nat
  t_currentRole :: string
  t_entryIndex :: nat
  tdb :: store

fun parseBlocks :: "lib \<Rightarrow> nat \<Rightarrow> string list \<Rightarrow> txt_loop \<Rightarrow> txt_loop option \<times> store" where
  "parseBlocks L conversationId [] st = (Some st, tdb st)"
| "parseBlocks L conversationId (b # rest) st =
     (let block = trim b in
      if block = ''Human:'' \<or> block = ''>'' then
        parseBlocks L conversationId rest (st\<lparr>t_currentRole := ''user''\<rparr>)
      else if block = ''Assistant:'' then
        parseBlocks L conversationId rest (st\<lparr>t_currentRole := ''assistant''\<rparr>)
      else if block = [] then parseBlocks L conversationId rest st
      else
        (case insertEntry L conversationId (sha256 L block) (t_entryIndex st)
                (JStr (t_currentRole st)) block JNull (tdb st) of
           (None, db') \<Rightarrow> (None, db')
         | (Some inserted, db') \<Rightarrow>
             parseBlocks L conversationId rest
               (st\<lparr>t_newEntries := (if inserted then t_newEntries st + 1 else t_newEntries st),
                   t_skipped := (if inserted then t_skipped st else t_skipped st + 1),
                   t_entryIndex := t_entryIndex st + 1,
                   tdb := db'\<rparr>)))"

definition parseTXT ::
  "lib \<Rightarrow> files \<Rightarrow> string \<Rightarrow> jsval \<Rightarrow> store \<Rightarrow> (parse_error + parse_report) option \<times> store" where
  "parseTXT L fs filePath projectId db =
     (case fs filePath of
        None \<Rightarrow> (Some (Inl FileNotFound), db)
      | Some content \<Rightarrow>
          (let contentHash = sha256 L content in
           if (case getParseState db filePath of None \<Rightarrow> False
               | Some parseState \<Rightarrow> ps_last_entry_hash parseState = JStr contentHash)
           then (Some (Inr nothingNew), db)
           else
             (let sessionId = JStr (''txt-'' @ replaceFirst ''.txt'' [] (lastSegment isPathSep filePath))
              in case findOrCreateConversation L sessionId filePath ''txt'' noMetadata db of
                   (None, db0) \<Rightarrow> (None, db0)
                 | (Some conversation, db0) \<Rightarrow>
                     (case setProject L projectId conversation db0 of
                        None \<Rightarrow> (None, db0)
                      | Some db1 \<Rightarrow>
                          (let conversationId = c_id conversation;
                               blocks = filter (\<lambda>s. trim s \<noteq> []) (split_roles L content)
                           in case parseBlocks L conversationId blocks
                                     \<lparr>t_newEntries = 0, t_skipped = 0, t_currentRole = ''user'',
                                      t_entryIndex = 0, tdb = db1\<rparr> of
                                (None, db') \<Rightarrow> (None, db')
                              | (Some st, db') \<Rightarrow>
                                  (Some (Inr \<lparr>r_conversationId = Some conversationId,
                                              r_sessionId = Some sessionId,
                                              r_newEntries = t_newEntries st, r_skipped = t_skipped st,
                                              r_totalLines = None\<rparr>),
                                   updateConversationStats L conversationId
                                     (updateParseState filePath 0 (JStr contentHash) db')))))))"

text \<open>\<^verbatim>\<open>processFile\<close>: the format is chosen by what follows the last dot of the lower-cased path.\<close>

definition fileExt :: "string \<Rightarrow> string" where
  "fileExt filePath = lastSegment (\<lambda>c. c = CHR ''.'') (toLowerCase filePath)"

definition processFile ::
  "lib \<Rightarrow> files \<Rightarrow> string \<Rightarrow> jsval \<Rightarrow> store \<Rightarrow> (parse_error + parse_report) option \<times> store" where
  "processFile L fs filePath projectId db =
     (if fileExt filePath = ''jsonl'' then parseJSONL L fs filePath projectId db
      else if fileExt filePath = ''txt'' then parseTXT L fs filePath projectId db
      else (Some (Inl UnknownFormat), db))"

section \<open>Artifact extractor service\<close>

definition MAX_OUTPUT_SIZE :: nat where
  "MAX_OUTPUT_SIZE = 10240"

definition SUMMARY_LENGTH :: nat where
  "SUMMARY_LENGTH = 500"

definition PROMPT_CONTEXT_LENGTH :: nat where
  "PROMPT_CONTEXT_LENGTH = 200"

definition artifactExists :: "store \<Rightarrow> nat \<Rightarrow> string \<Rightarrow> bool" where
  "artifactExists db conversationId contentHash =
     list_ex (\<lambda>a. a_conversationId a = conversationId \<and> a_contentHash a = contentHash) (artifacts db)"

text \<open>
  An artifact object as the callers build it; a property they do not set is
  \<^verbatim>\<open>undefined\<close>. \<^verbatim>\<open>storeArtifact\<close> binds each optional value through
  \<^verbatim>\<open>|| null\<close>, the metadata serialised, the truncation flag as 1 or 0; the row is
  what the columns keep of these values. The statement throws (\<open>None\<close>) when the driver
  refuses one of them.
\<close>

definition blankArtifact :: "nat \<Rightarrow> string \<Rightarrow> string \<Rightarrow> artifact" where
  "blankArtifact conversationId type contentHash =
     \<lparr>a_conversationId = conversationId, a_entryId = JUndef, a_type = type, a_language = JUndef,
      a_toolName = JUndef, a_content = JUndef, a_metadata = JUndef, a_contentHash = contentHash,
      a_outcome = JUndef, a_outputSummary = JUndef, a_outputFull = JUndef,
      a_outputSizeBytes = JUndef, a_outputTruncated = JUndef, a_errorType = JUndef,
      a_promptContext = JUndef, a_followUpAction = JUndef\<rparr>"

definition artifactRow :: "lib \<Rightarrow> artifact \<Rightarrow> artifact" where
  "artifactRow L a =
     \<lparr>a_conversationId = a_conversationId a,
      a_entryId = asInteger L (orElse (a_entryId a) JNull),
      a_type = a_type a,
      a_language = asText L (orElse (a_language a) JNull),
      a_toolName = asText L (orElse (a_toolName a) JNull),
      a_content = asText L (orElse (a_content a) JNull),
      a_metadata = (if truthy (a_metadata a) then jsonStringify L (a_metadata a) else JNull),
      a_contentHash = a_contentHash a,
      a_outcome = asText L (orElse (a_outcome a) JNull),
      a_outputSummary = asText L (orElse (a_outputSummary a) JNull),
      a_outputFull = asText L (orElse (a_outputFull a) JNull),
      a_outputSizeBytes = asInteger L (orElse (a_outputSizeBytes a) JNull),
      a_outputTruncated = (if truthy (a_outputTruncated a) then JNum 1 else JNum 0),
      a_errorType = asText L (orElse (a_errorType a) JNull),
      a_promptContext = asText L (orElse (a_promptContext a) JNull),
      a_followUpAction = asText L (orElse (a_followUpAction a) JNull)\<rparr>"

definition bindableArtifact :: "artifact \<Rightarrow> bool" where
  "bindableArtifact a =
     list_all (\<lambda>v. bindable (orElse v JNull))
       [a_entryId a, a_language a, a_toolName a, a_content a, a_outcome a, a_outputSummary a,
        a_outputFull a, a_outputSizeBytes a, a_errorType a, a_promptContext a, a_followUpAction a]"

definition storeArtifact :: "lib \<Rightarrow> artifact \<Rightarrow> store \<Rightarrow> store option" where
  "storeArtifact L a db =
     (if bindableArtifact a then Some (db\<lparr>artifacts := artifacts db @ [artifactRow L a]\<rparr>) else None)"

subsection \<open>Scanners\<close>

text \<open>
  \<^verbatim>\<open>extractCodeBlocks\<close>: the successive matches of
  \<^verbatim>\<open>/```(\w*)\n([\s\S]*?)```/g\<close>. A match starts at a fence, takes the longest run of
  word characters, needs a line feed next, and ends at the first fence after it; where
  that fails the search goes on one character further, after a match it goes on behind
  the match.
\<close>

record code_block =
  cb_language :: string
  cb_content :: string
  cb_startIndex :: nat

definition isWordChar :: "char \<Rightarrow> bool" where
  "isWordChar c = (let n = (of_char c :: nat) in
     (48 \<le> n \<and> n \<le> 57) \<or> (65 \<le> n \<and> n \<le> 90) \<or> (97 \<le> n \<and> n \<le> 122) \<or> n = 95)"

definition fence :: string where
  "fence = [CHR 0x60, CHR 0x60, CHR 0x60]"

text \<open>The text before the first fence, and the text behind that fence.\<close>

fun findFence :: "string \<Rightarrow> (string \<times> string) option" where
  "findFence [] = None"
| "findFence (c # cs) =
     (if prefix fence (c # cs) then Some ([], drop 3 (c # cs))
      else (case findFence cs of None \<Rightarrow> None | Some (b, r) \<Rightarrow> Some (c # b, r)))"

text \<open>One match attempt at the head of the text: language tag, body, and the text behind the match.\<close>

definition matchCodeBlock :: "string \<Rightarrow> (string \<times> string \<times> string) option" where
  "matchCodeBlock s =
     (if prefix fence s then
        (case dropWhile isWordChar (drop 3 s) of
           [] \<Rightarrow> None
         | c # body \<Rightarrow>
             if c = newline then
               (case findFence body of
                  None \<Rightarrow> None
                | Some (b, rest) \<Rightarrow> Some (takeWhile isWordChar (drop 3 s), b, rest))
             else None)
      else None)"

function scanCodeBlocks :: "nat \<Rightarrow> string \<Rightarrow> code_block list" where
  "scanCodeBlocks pos s =
     (if s = [] then []
      else (case matchCodeBlock s of
              None \<Rightarrow> scanCodeBlocks (Suc pos) (tl s)
            | Some (lang, body, rest) \<Rightarrow>
                \<lparr>cb_language = (if lang = [] then ''text'' else lang),
                 cb_content = trim body,
                 cb_startIndex = pos\<rparr>
                # scanCodeBlocks (pos + (length s - length rest)) rest))"
  by pat_completeness auto
termination
proof (relation "measure (\<lambda>(pos, s). length s)")
  show "wf (measure (\<lambda>(pos, s). length s))" by simp
next
  fix pos :: nat and s :: string
  assume "s \<noteq> []"
  then show "((Suc pos, tl s), (pos, s)) \<in> measure (\<lambda>(pos, s). length s)"
    by (cases s) simp_all
next
  fix pos :: nat and s x2 x y x2a ya
  assume "matchCodeBlock s = Some x2" and "(x, y) = x2" and "(x2a, ya) = y"
  then have m: "matchCodeBlock s = Some (x, x2a, ya)" by simp
  have shorter: "findFence t = Some (b, r) \<Longrightarrow> length r < length t" for t b r
  proof (induction t arbitrary: b)
    case Nil
    then show ?case by simp
  next
    case (Cons c cs)
    show ?case
    proof (cases "prefix fence (c # cs)")
      case True
      then have "r = drop 3 (c # cs)" using Cons.prems by simp
      then show ?thesis by simp
    next
      case False
      then obtain b' where "findFence cs = Some (b', r)"
        using Cons.prems by (auto split: option.splits)
      then have "length r < length cs" by (rule Cons.IH)
      then show ?thesis by simp
    qed
  qed
  obtain c body where d: "dropWhile isWordChar (drop 3 s) = c # body"
    and f: "findFence body = Some (x2a, ya)"
    using m by (auto simp: matchCodeBlock_def split: if_splits list.splits option.splits)
  have "length ya < length body" using f by (rule shorter)
  moreover have "length (c # body) \<le> length (drop 3 s)"
    using length_dropWhile_le[of isWordChar "drop 3 s"] d by simp
  ultimately have "length ya < length s" by simp
  then show "((pos + (length s - length ya), ya), (pos, s)) \<in> measure (\<lambda>(pos, s). length s)"
    by simp
qed

declare scanCodeBlocks.simps [simp del]

definition extractCodeBlocks :: "string \<Rightarrow> code_block list" where
  "extractCodeBlocks text = scanCodeBlocks 0 text"

text \<open>
  \<^verbatim>\<open>extractJsonObjects\<close>: the successive matches of \<^verbatim>\<open>/\{[\s\S]*?\}/g\<close>, each
  from an opening brace to the first closing brace after it. A match is kept when it
  decodes, \<^verbatim>\<open>typeof parsed === 'object'\<close> and \<^verbatim>\<open>Object.keys(parsed).length > 0\<close>;
  on \<^verbatim>\<open>null\<close> \<^verbatim>\<open>Object.keys\<close> throws, and the \<^verbatim>\<open>catch\<close> skips the match.
\<close>

record json_match =
  jm_content :: string
  jm_parsed :: jsval
  jm_startIndex :: nat

text \<open>The matches with their start index; the second argument is the match under way, reversed.\<close>

fun braceMatches :: "nat \<Rightarrow> (nat \<times> string) option \<Rightarrow> string \<Rightarrow> (nat \<times> string) list" where
  "braceMatches pos acc [] = []"
| "braceMatches pos None (c # cs) =
     (if c = CHR 0x7B then braceMatches (Suc pos) (Some (pos, [c])) cs
      else braceMatches (Suc pos) None cs)"
| "braceMatches pos (Some (start, m)) (c # cs) =
     (if c = CHR 0x7D then (start, rev (c # m)) # braceMatches (Suc pos) None cs
      else braceMatches (Suc pos) (Some (start, c # m)) cs)"

fun isObjectType :: "jsval \<Rightarrow> bool" where
  "isObjectType JNull = True"
| "isObjectType (JArr xs) = True"
| "isObjectType (JObj kvs) = True"
| "isObjectType v = False"

definition keepJsonMatch :: "lib \<Rightarrow> nat \<times> string \<Rightarrow> json_match list" where
  "keepJsonMatch L m =
     (case json_parse L (snd m) of
        None \<Rightarrow> []
      | Some parsed \<Rightarrow>
          if isObjectType parsed \<and> parsed \<noteq> JNull \<and> length (object_keys L parsed) > 0
          then [\<lparr>jm_content = snd m, jm_parsed = parsed, jm_startIndex = fst m\<rparr>]
          else [])"

definition extractJsonObjects :: "lib \<Rightarrow> string \<Rightarrow> json_match list" where
  "extractJsonObjects L text = concat (map (keepJsonMatch L) (braceMatches 0 None text))"

subsection \<open>Output tiering\<close>

record output_data =
  o_summary :: jsval
  o_full :: jsval
  o_size :: nat
  o_truncated :: bool

text \<open>The string \<^verbatim>\<open>processOutput\<close> measures: the payload itself, or its serialisation.\<close>

definition outputStr :: "lib \<Rightarrow> jsval \<Rightarrow> string" where
  "outputStr L output = (if isString output then strOf output else strOf (jsonStringify L output))"

definition processOutput :: "lib \<Rightarrow> jsval \<Rightarrow> bool \<Rightarrow> output_data" where
  "processOutput L output isError =
     (if \<not> truthy output then \<lparr>o_summary = JNull, o_full = JNull, o_size = 0, o_truncated = False\<rparr>
      else
        (let size = length (outputStr L output);
             summary = JStr (sliceTo SUMMARY_LENGTH (outputStr L output))
         in if isError then
              \<lparr>o_summary = summary, o_full = JStr (outputStr L output), o_size = size, o_truncated = False\<rparr>
            else if size \<le> MAX_OUTPUT_SIZE then
              \<lparr>o_summary = summary, o_full = JStr (outputStr L output), o_size = size, o_truncated = False\<rparr>
            else
              \<lparr>o_summary = summary, o_full = JNull, o_size = size, o_truncated = True\<rparr>))"

subsection \<open>Prompt context\<close>

text \<open>
  \<^verbatim>\<open>getPromptContext(entries, currentIndex)\<close>. \<^verbatim>\<open>slice(-200)\<close> is the last 200
  characters of a string and the last 200 elements of an array; any other truthy
  content has no \<^verbatim>\<open>slice\<close> and the call throws (\<open>None\<close>).
\<close>

definition itemAt :: "jsval list \<Rightarrow> nat \<Rightarrow> jsval" where
  "itemAt xs i = (if i < length xs then xs ! i else JUndef)"

definition getPromptContext :: "jsval list \<Rightarrow> nat \<Rightarrow> jsval option" where
  "getPromptContext entries currentIndex =
     (if currentIndex \<le> 0 \<or> length entries = 0 then Some JNull
      else (let content = optProp ''content'' (itemAt entries (currentIndex - 1)) in
        if \<not> truthy content then Some JNull
        else (case content of
                JStr s \<Rightarrow> Some (JStr (sliceLast PROMPT_CONTEXT_LENGTH s))
              | JArr xs \<Rightarrow> Some (JArr (sliceLast PROMPT_CONTEXT_LENGTH xs))
              | _ \<Rightarrow> None)))"

subsection \<open>Tool calls and their results\<close>

text \<open>
  A value of \<^verbatim>\<open>toolCallMap\<close>. \<^verbatim>\<open>result\<close>, \<^verbatim>\<open>isError\<close> and
  \<^verbatim>\<open>resultLineIndex\<close> are not set until a result is attached.
\<close>

record tool_call =
  tc_name :: jsval
  tc_input :: jsval
  tc_lineIndex :: nat
  tc_timestamp :: jsval
  tc_result :: jsval
  tc_isError :: jsval
  tc_resultLineIndex :: "nat option"

text \<open>
  The \<^verbatim>\<open>Map\<close>: keys in insertion order, compared as \<^verbatim>\<open>Map\<close> compares them, so
  an array or object key (a fresh object of its line) is equal to no other key.
\<close>

type_synonym call_map = "(jsval \<times> tool_call) list"

fun isRef :: "jsval \<Rightarrow> bool" where
  "isRef (JArr xs) = True"
| "isRef (JObj kvs) = True"
| "isRef v = False"

definition mapGet :: "call_map \<Rightarrow> jsval \<Rightarrow> tool_call option" where
  "mapGet m k = (if isRef k then None else map_of m k)"

definition mapSet :: "call_map \<Rightarrow> jsval \<Rightarrow> tool_call \<Rightarrow> call_map" where
  "mapSet m k v = (if isRef k then m @ [(k, v)] else upsert k v m)"

text \<open>
  The two loops over the blocks of a line in the first pass. Reading \<^verbatim>\<open>block.type\<close>
  of a \<^verbatim>\<open>null\<close> block throws; the \<^verbatim>\<open>catch\<close> of the line then ends the line's
  processing (\<open>False\<close>), with what was recorded before kept.
\<close>

fun collectToolUses :: "nat \<Rightarrow> jsval \<Rightarrow> jsval list \<Rightarrow> call_map \<Rightarrow> call_map \<times> bool" where
  "collectToolUses i entry [] m = (m, True)"
| "collectToolUses i entry (block # blocks) m =
     (case getProp ''type'' block of
        None \<Rightarrow> (m, False)
      | Some ty \<Rightarrow>
          collectToolUses i entry blocks
            (if ty = JStr ''tool_use'' then
               mapSet m (optProp ''id'' block)
                 \<lparr>tc_name = optProp ''name'' block,
                  tc_input = optProp ''input'' block,
                  tc_lineIndex = i,
                  tc_timestamp = optProp ''timestamp'' entry,
                  tc_result = JUndef,
                  tc_isError = JUndef,
                  tc_resultLineIndex = None\<rparr>
             else m))"

fun attachResults :: "nat \<Rightarrow> jsval list \<Rightarrow> call_map \<Rightarrow> call_map \<times> bool" where
  "attachResults i [] m = (m, True)"
| "attachResults i (block # blocks) m =
     (case getProp ''type'' block of
        None \<Rightarrow> (m, False)
      | Some ty \<Rightarrow>
          attachResults i blocks
            (if ty = JStr ''tool_result'' then
               (case mapGet m (optProp ''tool_use_id'' block) of
                  None \<Rightarrow> m
                | Some call \<Rightarrow>
                    upsert (optProp ''tool_use_id'' block)
                      (call\<lparr>tc_result := optProp ''content'' block,
                            tc_isError := optProp ''is_error'' block,
                            tc_resultLineIndex := Some i\<rparr>) m)
             else m))"

definition firstPassLine :: "lib \<Rightarrow> nat \<Rightarrow> string \<Rightarrow> call_map \<Rightarrow> call_map" where
  "firstPassLine L i line m =
     (case json_parse L line of
        None \<Rightarrow> m
      | Some entry \<Rightarrow>
          if isNullish entry then m
          else
            (let content = optProp ''content'' (optProp ''message'' entry);
                 uses = (if optProp ''type'' entry = JStr ''assistant'' \<and> isArray content
                         then collectToolUses i entry (arrayItems content) m
                         else (m, True))
             in if \<not> snd uses then fst uses
                else if optProp ''type'' entry = JStr ''user'' \<and> isArray content
                  then fst (attachResults i (arrayItems content) (fst uses))
                else fst uses))"

fun firstPass :: "lib \<Rightarrow> nat \<Rightarrow> string list \<Rightarrow> call_map \<Rightarrow> call_map" where
  "firstPass L i [] m = m"
| "firstPass L i (line # rest) m = firstPass L (Suc i) rest (firstPassLine L i line m)"

text \<open>The second pass: every line decoded again, \<^verbatim>\<open>null\<close> where it does not decode.\<close>

definition decodeAll :: "lib \<Rightarrow> string list \<Rightarrow> jsval list" where
  "decodeAll L lines = map (\<lambda>line. case json_parse L line of None \<Rightarrow> JNull | Some entry \<Rightarrow> entry) lines"

record results =
  codeBlocks :: nat
  toolCalls :: nat
  toolResults :: nat
  jsonObjects :: nat
  skippedCount :: nat

definition toolCallHash :: "lib \<Rightarrow> jsval \<Rightarrow> tool_call \<Rightarrow> string" where
  "toolCallHash L toolId call =
     sha256 L (json_stringify L (objLit [(''id'', toolId), (''input'', tc_input call)]))"

definition toolResultHash :: "lib \<Rightarrow> jsval \<Rightarrow> tool_call \<Rightarrow> string" where
  "toolResultHash L toolId call =
     sha256 L (json_stringify L (objLit [(''id'', toolId), (''result'', tc_result call)]))"

definition callIsError :: "tool_call \<Rightarrow> bool" where
  "callIsError call = (tc_isError call = JBool True)"

text \<open>The \<^verbatim>\<open>tool_call\<close> artifact object of one invocation, and the \<^verbatim>\<open>tool_result\<close> one.\<close>

definition toolCallArtifact :: "lib \<Rightarrow> nat \<Rightarrow> jsval \<Rightarrow> tool_call \<Rightarrow> jsval \<Rightarrow> artifact" where
  "toolCallArtifact L conversationId toolId call promptContext =
     (let isError = callIsError call;
          outputData = processOutput L (tc_result call) isError
      in (blankArtifact conversationId ''tool_call'' (toolCallHash L toolId call))
         \<lparr>a_toolName := tc_name call,
          a_content := jsonStringify L (tc_input call),
          a_metadata := objLit [(''toolUseId'', toolId),
                                (''inputKeys'', JArr (map JStr (object_keys L (orElse (tc_input call) (JObj [])))))],
          a_outcome := (if isError then JStr ''error''
                        else if truthy (tc_result call) then JStr ''success'' else JStr ''pending''),
          a_outputSummary := o_summary outputData,
          a_outputFull := o_full outputData,
          a_outputSizeBytes := JNum (int (o_size outputData)),
          a_outputTruncated := JBool (o_truncated outputData),
          a_errorType := (if isError then JStr (classifyError L (tc_result call) None) else JNull),
          a_promptContext := promptContext\<rparr>)"

definition toolResultArtifact :: "lib \<Rightarrow> nat \<Rightarrow> jsval \<Rightarrow> tool_call \<Rightarrow> artifact" where
  "toolResultArtifact L conversationId toolId call =
     (let isError = callIsError call;
          outputData = processOutput L (tc_result call) isError
      in (blankArtifact conversationId ''tool_result'' (toolResultHash L toolId call))
         \<lparr>a_toolName := tc_name call,
          a_content := o_summary outputData,
          a_metadata := objLit [(''toolUseId'', toolId)],
          a_outcome := (if isError then JStr ''error'' else JStr ''success''),
          a_outputSummary := o_summary outputData,
          a_outputFull := o_full outputData,
          a_outputSizeBytes := JNum (int (o_size outputData)),
          a_outputTruncated := JBool (o_truncated outputData),
          a_errorType := (if isError then JStr (classifyError L (tc_result call) None) else JNull)\<rparr>)"

text \<open>
  A loop whose body may throw: the body gives the state it reached and whether it
  returned normally; the loop stops where the body threw.
\<close>

fun loopUntilThrow :: "('x \<Rightarrow> 's \<Rightarrow> 's \<times> bool) \<Rightarrow> 'x list \<Rightarrow> 's \<Rightarrow> 's \<times> bool" where
  "loopUntilThrow body [] st = (st, True)"
| "loopUntilThrow body (x # xs) st =
     (if snd (body x st) then loopUntilThrow body xs (fst (body x st)) else (fst (body x st), False))"

text \<open>
  The body of the loop over \<^verbatim>\<open>toolCallMap\<close>. \<^verbatim>\<open>getPromptContext\<close> may throw;
  it is called before anything of this invocation is stored. The loop is inside no
  \<^verbatim>\<open>try\<close>, so a \<^verbatim>\<open>storeArtifact\<close> that throws ends it too.
\<close>

definition processToolCall ::
  "lib \<Rightarrow> nat \<Rightarrow> jsval list \<Rightarrow> jsval \<times> tool_call \<Rightarrow> results \<times> store \<Rightarrow> (results \<times> store) \<times> bool" where
  "processToolCall L conversationId decoded kv st =
     (let toolId = fst kv; call = snd kv; res = fst st; db = snd st in
      if artifactExists db conversationId (toolCallHash L toolId call)
      then ((res\<lparr>skippedCount := skippedCount res + 1\<rparr>, db), True)
      else
        (case getPromptContext decoded (tc_lineIndex call) of
           None \<Rightarrow> (st, False)
         | Some promptContext \<Rightarrow>
             (case storeArtifact L (toolCallArtifact L conversationId toolId call promptContext) db of
                None \<Rightarrow> (st, False)
              | Some db1 \<Rightarrow>
                  (let res1 = res\<lparr>toolCalls := toolCalls res + 1\<rparr>
                   in if truthy (tc_result call) then
                        (if \<not> artifactExists db1 conversationId (toolResultHash L toolId call)
                         then (case storeArtifact L (toolResultArtifact L conversationId toolId call) db1 of
                                 None \<Rightarrow> ((res1, db1), False)
                               | Some db2 \<Rightarrow>
                                   ((res1\<lparr>toolResults := toolResults res1 + 1\<rparr>, db2), True))
                         else ((res1, db1), True))
                      else ((res1, db1), True)))))"

subsection \<open>Code blocks of the assistant's text\<close>

text \<open>
  The text of one decoded line for the code-block scan: \<open>Some None\<close> when the line is
  passed over, \<open>None\<close> when a \<^verbatim>\<open>null\<close> block makes \<^verbatim>\<open>block.type\<close> throw.
\<close>

fun textOfBlocks :: "lib \<Rightarrow> jsval list \<Rightarrow> string \<Rightarrow> string option" where
  "textOfBlocks L [] acc = Some acc"
| "textOfBlocks L (block # blocks) acc =
     (case getProp ''type'' block of
        None \<Rightarrow> None
      | Some ty \<Rightarrow>
          textOfBlocks L blocks
            (if ty = JStr ''text'' then acc @ toStr L (optProp ''text'' block) @ [newline] else acc))"

definition assistantText :: "lib \<Rightarrow> jsval \<Rightarrow> string option option" where
  "assistantText L entry =
     (if \<not> truthy entry \<or> optProp ''type'' entry \<noteq> JStr ''assistant'' then Some None
      else (let content = optProp ''content'' (optProp ''message'' entry) in
        if \<not> truthy content then Some None
        else if isString content then Some (Some (strOf content))
        else if isArray content then
          (case textOfBlocks L (arrayItems content) [] of None \<Rightarrow> None | Some t \<Rightarrow> Some (Some t))
        else Some (Some [])))"

definition codeBlockArtifact :: "nat \<Rightarrow> string \<Rightarrow> code_block \<Rightarrow> jsval \<Rightarrow> artifact" where
  "codeBlockArtifact conversationId contentHash block promptContext =
     (blankArtifact conversationId ''code_block'' contentHash)
       \<lparr>a_language := JStr (cb_language block),
        a_content := JStr (cb_content block),
        a_promptContext := promptContext\<rparr>"

definition storeCodeBlock ::
  "lib \<Rightarrow> nat \<Rightarrow> jsval list \<Rightarrow> nat \<Rightarrow> code_block \<Rightarrow> results \<times> store \<Rightarrow> (results \<times> store) \<times> bool" where
  "storeCodeBlock L conversationId decoded i block st =
     (let res = fst st; db = snd st; contentHash = sha256 L (cb_content block) in
      if artifactExists db conversationId contentHash
      then ((res\<lparr>skippedCount := skippedCount res + 1\<rparr>, db), True)
      else
        (case getPromptContext decoded i of
           None \<Rightarrow> (st, False)
         | Some promptContext \<Rightarrow>
             (case storeArtifact L (codeBlockArtifact conversationId contentHash block promptContext) db of
                None \<Rightarrow> (st, False)
              | Some db1 \<Rightarrow> ((res\<lparr>codeBlocks := codeBlocks res + 1\<rparr>, db1), True))))"

definition scanEntry ::
  "lib \<Rightarrow> nat \<Rightarrow> jsval list \<Rightarrow> nat \<times> jsval \<Rightarrow> results \<times> store \<Rightarrow> (results \<times> store) \<times> bool" where
  "scanEntry L conversationId decoded ie st =
     (case assistantText L (snd ie) of
        None \<Rightarrow> (st, False)
      | Some None \<Rightarrow> (st, True)
      | Some (Some textContent) \<Rightarrow>
          loopUntilThrow (storeCodeBlock L conversationId decoded (fst ie))
            (extractCodeBlocks textContent) st)"

subsection \<open>Extraction from the event-log file\<close>

datatype extract_error = SourceFileNotFound | ConversationNotFound

definition noResults :: results where
  "noResults = \<lparr>codeBlocks = 0, toolCalls = 0, toolResults = 0, jsonObjects = 0, skippedCount = 0\<rparr>"

text \<open>
  \<^verbatim>\<open>processJSONLFile\<close>: \<open>None\<close> when an exception leaves the function, with the
  store as the rows inserted before it left it.
\<close>

definition processJSONLFile ::
  "lib \<Rightarrow> files \<Rightarrow> string \<Rightarrow> nat \<Rightarrow> store \<Rightarrow> (extract_error + results) option \<times> store" where
  "processJSONLFile L fs filePath conversationId db =
     (case fs filePath of
        None \<Rightarrow> (Some (Inl SourceFileNotFound), db)
      | Some content \<Rightarrow>
          (let lines = nonEmptyLines content;
               toolCallMap = firstPass L 0 lines [];
               decoded = decodeAll L lines;
               calls = loopUntilThrow (processToolCall L conversationId decoded) toolCallMap (noResults, db)
           in if \<not> snd calls then (None, snd (fst calls))
              else
                (let blocks = loopUntilThrow (scanEntry L conversationId decoded)
                                (enumerate 0 decoded) (fst calls)
                 in if \<not> snd blocks then (None, snd (fst blocks))
                    else (Some (Inr (fst (fst blocks))), snd (fst blocks)))))"

subsection \<open>Extraction from the stored entries\<close>

record entry_results =
  er_codeBlocks :: nat
  er_jsonObjects :: nat
  er_skipped :: nat

datatype extract_report = FromFile results | FromEntries entry_results

definition storeRowBlock ::
  "lib \<Rightarrow> nat \<Rightarrow> entry list \<Rightarrow> nat \<Rightarrow> entry \<Rightarrow> code_block \<Rightarrow> entry_results \<times> store
     \<Rightarrow> (entry_results \<times> store) \<times> bool" where
  "storeRowBlock L conversationId rows i row block st =
     (let res = fst st; db = snd st; contentHash = sha256 L (cb_content block) in
      if artifactExists db conversationId contentHash
      then ((res\<lparr>er_skipped := er_skipped res + 1\<rparr>, db), True)
      else
        (let prevContent = (if i > 0 then JStr (e_content (rows ! (i - 1))) else JNull) in
         case storeArtifact L
                ((codeBlockArtifact conversationId contentHash block
                    (if truthy prevContent then JStr (sliceLast PROMPT_CONTEXT_LENGTH (strOf prevContent))
                     else JNull))
                   \<lparr>a_entryId := JNum (int (e_id row))\<rparr>) db of
           None \<Rightarrow> (st, False)
         | Some db1 \<Rightarrow> ((res\<lparr>er_codeBlocks := er_codeBlocks res + 1\<rparr>, db1), True)))"

definition scanRow ::
  "lib \<Rightarrow> nat \<Rightarrow> entry list \<Rightarrow> nat \<times> entry \<Rightarrow> entry_results \<times> store
     \<Rightarrow> (entry_results \<times> store) \<times> bool" where
  "scanRow L conversationId rows ir st =
     (if e_role (snd ir) \<noteq> JStr ''assistant'' then (st, True)
      else loopUntilThrow (storeRowBlock L conversationId rows (fst ir) (snd ir))
             (extractCodeBlocks (e_content (snd ir))) st)"

text \<open>
  \<^verbatim>\<open>processConversationEntries\<close>: \<open>None\<close> when an exception leaves the function,
  with the store as the rows inserted before it left it.
\<close>

definition processConversationEntries ::
  "lib \<Rightarrow> files \<Rightarrow> nat \<Rightarrow> store \<Rightarrow> (extract_error + extract_report) option \<times> store" where
  "processConversationEntries L fs conversationId db =
     (case find (\<lambda>c. c_id c = conversationId) (conversations db) of
        None \<Rightarrow> (Some (Inl ConversationNotFound), db)
      | Some conversation \<Rightarrow>
          if c_source_file_type conversation = ''jsonl'' \<and> fs (c_source_file_path conversation) \<noteq> None
          then (case processJSONLFile L fs (c_source_file_path conversation) conversationId db of
                  (r, db') \<Rightarrow> (map_option (map_sum id FromFile) r, db'))
          else
            (let rows = sort_key e_entry_index
                          (filter (\<lambda>e. e_conversation_id e = conversationId) (conversation_entries db));
                 scanned = loopUntilThrow (scanRow L conversationId rows) (enumerate 0 rows)
                             (\<lparr>er_codeBlocks = 0, er_jsonObjects = 0, er_skipped = 0\<rparr>, db)
             in if \<not> snd scanned then (None, snd (fst scanned))
                else (Some (Inr (FromEntries (fst (fst scanned)))), snd (fst scanned))))"

fun reportedJsonObjects :: "extract_report \<Rightarrow> nat" where
  "reportedJsonObjects (FromFile res) = jsonObjects res"
| "reportedJsonObjects (FromEntries res) = er_jsonObjects res"

section \<open>A concrete runtime and concrete event logs\<close>

text \<open>
  A runtime to evaluate the services on concrete inputs: a compact JSON serialiser (no
  escaping), the digest as the identity, \<^verbatim>\<open>JSON.parse\<close> as the inverse of the
  serialiser on the lines used below, a number kept as its decimal text, and no text
  read as a number.
\<close>

fun showNat :: "nat \<Rightarrow> string" where
  "showNat n = (if n < 10 then [''0123456789'' ! n]
                else showNat (n div 10) @ [''0123456789'' ! (n mod 10)])"

declare showNat.simps [simp del]

definition dq :: string where
  "dq = [CHR 0x22]"

fun showJs :: "jsval \<Rightarrow> string" where
  "showJs JUndef = ''undefined''"
| "showJs JNull = ''null''"
| "showJs (JBool b) = (if b then ''true'' else ''false'')"
| "showJs (JNum n) = (if n < 0 then ''-'' @ showNat (nat (- n)) else showNat (nat n))"
| "showJs (JStr s) = dq @ s @ dq"
| "showJs (JArr xs) = ''['' @ joinWith '','' (map showJs xs) @ '']''"
| "showJs (JObj kvs) =
     ''{'' @ joinWith '','' (map (\<lambda>kv. dq @ fst kv @ dq @ '':'' @ showJs (snd kv)) kvs) @ ''}''"

fun keysOf :: "jsval \<Rightarrow> string list" where
  "keysOf (JObj kvs) = map fst kvs"
| "keysOf v = []"

text \<open>An assistant line with one tool invocation (\<^verbatim>\<open>t1\<close>, \<^verbatim>\<open>Read\<close>).\<close>

definition useEntry :: jsval where
  "useEntry = JObj [(''type'', JStr ''assistant''),
     (''message'', JObj [(''role'', JStr ''assistant''),
        (''content'', JArr [JObj [(''type'', JStr ''tool_use''), (''id'', JStr ''t1''),
                                  (''name'', JStr ''Read''),
                                  (''input'', JObj [(''file_path'', JStr ''a.txt'')])]])])]"

text \<open>User lines carrying the result of \<^verbatim>\<open>t1\<close>: with a payload, with an empty payload, and flagged as an error with an empty payload.\<close>

definition resultEntry :: "jsval \<Rightarrow> (string \<times> jsval) list \<Rightarrow> jsval" where
  "resultEntry payload flags = JObj [(''type'', JStr ''user''),
     (''message'', JObj [(''role'', JStr ''user''),
        (''content'', JArr [JObj ([(''type'', JStr ''tool_result''), (''tool_use_id'', JStr ''t1''),
                                   (''content'', payload)] @ flags)])])]"

definition okEntry :: jsval where
  "okEntry = resultEntry (JStr ''hello'') []"

definition emptyEntry :: jsval where
  "emptyEntry = resultEntry (JStr []) []"

definition failedEntry :: jsval where
  "failedEntry = resultEntry (JStr ''Permission denied: file not found'') [(''is_error'', JBool True)]"

definition failedEmptyEntry :: jsval where
  "failedEmptyEntry = resultEntry (JStr []) [(''is_error'', JBool True)]"

text \<open>A user line with a plain text, and one with a role of its own.\<close>

definition askEntry :: jsval where
  "askEntry = JObj [(''type'', JStr ''user''), (''sessionId'', JStr ''s1''),
     (''message'', JObj [(''role'', JStr ''user''), (''content'', JStr ''please read a.txt'')])]"

definition moderatorEntry :: jsval where
  "moderatorEntry = JObj [(''type'', JStr ''user''),
     (''message'', JObj [(''role'', JStr ''moderator''), (''content'', JStr ''hi'')])]"

text \<open>A user line whose message has no role.\<close>

definition bareEntry :: jsval where
  "bareEntry = JObj [(''type'', JStr ''user''), (''message'', JObj [(''content'', JStr ''hi'')])]"

text \<open>
  User lines whose session id is an object, whose nested role is \<^verbatim>\<open>true\<close>, and
  whose nested role is the number 7.
\<close>

definition objectSessionEntry :: jsval where
  "objectSessionEntry = JObj [(''type'', JStr ''user''), (''sessionId'', JObj [(''a'', JStr ''b'')]),
     (''message'', JObj [(''role'', JStr ''user''), (''content'', JStr ''hi'')])]"

definition flagRoleEntry :: jsval where
  "flagRoleEntry = JObj [(''type'', JStr ''user''),
     (''message'', JObj [(''role'', JBool True), (''content'', JStr ''hi'')])]"

definition numberRoleEntry :: jsval where
  "numberRoleEntry = JObj [(''type'', JStr ''user''),
     (''message'', JObj [(''role'', JNum 7), (''content'', JStr ''hi'')])]"

text \<open>A flat object, as it may stand in a text.\<close>

definition noteEntry :: jsval where
  "noteEntry = JObj [(''type'', JStr ''note'')]"

definition knownEntries :: "jsval list" where
  "knownEntries = [useEntry, okEntry, emptyEntry, failedEntry, failedEmptyEntry, askEntry,
                   moderatorEntry, bareEntry, noteEntry, objectSessionEntry, flagRoleEntry,
                   numberRoleEntry]"

definition testLib :: lib where
  "testLib = \<lparr>sha256 = (\<lambda>s. s),
              json_parse = map_of (map (\<lambda>e. (showJs e, e)) knownEntries),
              json_stringify = showJs,
              json_stringify2 = showJs,
              to_string = showJs,
              object_keys = keysOf,
              split_roles = (\<lambda>s. [s]),
              time_stats = (\<lambda>ts. (JNull, JNull, JNull)),
              number_text = (\<lambda>n. showJs (JNum n)),
              text_number = (\<lambda>s. None)\<rparr>"

text \<open>A file system with one file, holding the given lines.\<close>

definition fileAt :: "string \<Rightarrow> string list \<Rightarrow> files" where
  "fileAt path lines = (\<lambda>p. if p = path then Some (joinWith [newline] lines) else None)"

definition noFiles :: files where
  "noFiles = (\<lambda>p. None)"

section \<open>Observations of the store and of a run\<close>

text \<open>The stored checkpoint line count of a path (0 when the path has no row), as \<^verbatim>\<open>parseJSONL\<close> reads it.\<close>

definition checkpoint :: "store \<Rightarrow> string \<Rightarrow> nat" where
  "checkpoint db filePath =
     (case getParseState db filePath of None \<Rightarrow> 0 | Some parseState \<Rightarrow> ps_last_line_number parseState)"

text \<open>
  The session id and the metadata \<^verbatim>\<open>parseJSONL\<close> works with, and the values its
  statements bind before the loop over the lines: the session id, the four metadata
  values of a conversation to create, and the project id where it is set.
\<close>

definition sessionOf :: "lib \<Rightarrow> string \<Rightarrow> string \<Rightarrow> jsval \<times> metadata" where
  "sessionOf L filePath content =
     (let found = findSession L (nonEmptyLines content) (JNull, noMetadata)
      in (if truthy (fst found) then fst found
          else JStr (replaceFirst ''.jsonl'' [] (lastSegment isPathSep filePath)),
          snd found))"


text \<open>No two stored entries of one conversation share their hash.\<close>

definition uniqueEntries :: "store \<Rightarrow> bool" where
  "uniqueEntries db = distinct (map (\<lambda>e. (e_conversation_id e, e_entry_hash e)) (conversation_entries db))"

text \<open>The discriminants \<^verbatim>\<open>parseJSONL\<close> accepts, and the counters after the insert of an accepted line.\<close>

definition acceptedType :: "jsval \<Rightarrow> bool" where
  "acceptedType ty = (ty = JStr ''user'' \<or> ty = JStr ''assistant'' \<or> ty = JStr ''tool_result'')"

definition afterInsert :: "string \<Rightarrow> parse_loop \<Rightarrow> bool option \<times> store \<Rightarrow> parse_loop" where
  "afterInsert lineHash st r =
     (case fst r of
        None \<Rightarrow> st\<lparr>pdb := snd r\<rparr>
      | Some inserted \<Rightarrow>
          st\<lparr>newEntries := (if inserted then newEntries st + 1 else newEntries st),
             skipped := (if inserted then skipped st else skipped st + 1),
             entryIndex := entryIndex st + 1,
             lastHash := JStr lineHash,
             pdb := snd r\<rparr>)"

text \<open>The pair the store keeps unique.\<close>

definition entryKey :: "entry \<Rightarrow> nat \<times> string" where
  "entryKey e = (e_conversation_id e, e_entry_hash e)"



text \<open>The tool calls the first pass finds in a file (none when the file is missing).\<close>

definition toolCallsOf :: "lib \<Rightarrow> files \<Rightarrow> string \<Rightarrow> call_map" where
  "toolCallsOf L fs filePath =
     (case fs filePath of None \<Rightarrow> [] | Some content \<Rightarrow> firstPass L 0 (nonEmptyLines content) [])"

text \<open>The rows a tool call can be stored as.\<close>

definition rowOfCall :: "lib \<Rightarrow> nat \<Rightarrow> jsval \<times> tool_call \<Rightarrow> artifact \<Rightarrow> bool" where
  "rowOfCall L conversationId kv a =
     ((\<exists>promptContext. a = artifactRow L (toolCallArtifact L conversationId (fst kv) (snd kv) promptContext))
      \<or> (truthy (tc_result (snd kv)) \<and> a = artifactRow L (toolResultArtifact L conversationId (fst kv) (snd kv))))"

text \<open>The code blocks the scan finds in a decoded line, and all those of a file.\<close>

definition entryBlocks :: "lib \<Rightarrow> jsval \<Rightarrow> code_block list" where
  "entryBlocks L entry =
     (case assistantText L entry of Some (Some textContent) \<Rightarrow> extractCodeBlocks textContent | _ \<Rightarrow> [])"

definition codeBlocksOf :: "lib \<Rightarrow> files \<Rightarrow> string \<Rightarrow> code_block list" where
  "codeBlocksOf L fs filePath =
     (case fs filePath of
        None \<Rightarrow> []
      | Some content \<Rightarrow> concat (map (entryBlocks L) (decodeAll L (nonEmptyLines content))))"

text \<open>The number of rows a run reports as inserted.\<close>

definition inserted :: "results \<Rightarrow> nat" where
  "inserted res = toolCalls res + toolResults res + codeBlocks res"

fun reportedInserted :: "extract_report \<Rightarrow> nat" where
  "reportedInserted (FromFile res) = toolCalls res + toolResults res + codeBlocks res"
| "reportedInserted (FromEntries res) = er_codeBlocks res"

text \<open>
  The stored entries of a conversation in the order of their index, the code blocks the
  scan finds in one of them, and all those of the conversation.
\<close>

definition storedRows :: "store \<Rightarrow> nat \<Rightarrow> entry list" where
  "storedRows db conversationId =
     sort_key e_entry_index (filter (\<lambda>e. e_conversation_id e = conversationId) (conversation_entries db))"

definition rowBlocks :: "entry \<Rightarrow> code_block list" where
  "rowBlocks row = (if e_role row = JStr ''assistant'' then extractCodeBlocks (e_content row) else [])"

definition storedBlocksOf :: "store \<Rightarrow> nat \<Rightarrow> code_block list" where
  "storedBlocksOf db conversationId = concat (map rowBlocks (storedRows db conversationId))"

text \<open>The characters a match of the JSON-object scanner starts and ends with.\<close>

definition openBrace :: char where
  "openBrace = CHR 0x7B"

definition closeBrace :: char where
  "closeBrace = CHR 0x7D"

text \<open>The text read so far of the match under way.\<close>

fun underWay :: "(nat \<times> string) option \<Rightarrow> string" where
  "underWay None = []"
| "underWay (Some (start, m)) = rev m"

text \<open>The match under way starts with an opening brace at its start index and holds no closing brace.\<close>

fun wellStarted :: "nat \<Rightarrow> (nat \<times> string) option \<Rightarrow> bool" where
  "wellStarted n None = True"
| "wellStarted n (Some (start, m)) =
     (start = n \<and> (\<exists>body. rev m = openBrace # body \<and> closeBrace \<notin> set body))"

text \<open>The artifact types the two extraction paths write.\<close>

definition extractedTypes :: "string set" where
  "extractedTypes = {''tool_call'', ''tool_result'', ''code_block''}"

section \<open>Concrete logs and stores\<close>

text \<open>
  A log of three lines that do not decode, with an empty line, a line of blanks and a
  line of a tab between them, and a line feed at the end.
\<close>

definition brokenContent :: string where
  "brokenContent = joinWith [newline] [''garbage'', [], ''  '', ''{'', [CHR 0x09], ''[1'', []]"

definition brokenLog :: files where
  "brokenLog = (\<lambda>p. if p = ''log.jsonl'' then Some brokenContent else None)"

text \<open>A log with the same line twice: the second is a duplicate of the first.\<close>

definition askLine :: string where
  "askLine = showJs askEntry"

definition doubledLog :: files where
  "doubledLog = (\<lambda>p. if p = ''log.jsonl'' then Some (joinWith [newline] [askLine, askLine]) else None)"

definition seededStore :: store where
  "seededStore = snd (parseJSONL testLib doubledLog ''log.jsonl'' JNull emptyStore)"

definition seededLoop :: parse_loop where
  "seededLoop = \<lparr>newEntries = 0, skipped = 0, entryIndex = 2, lastHash = JNull, pdb = seededStore\<rparr>"






text \<open>Logs of an invocation and its failed result, with a payload and without.\<close>

definition failedLog :: files where
  "failedLog = fileAt ''log.jsonl'' [showJs useEntry, showJs failedEntry]"

definition failedRow :: artifact where
  "failedRow = hd (artifacts (snd (processJSONLFile testLib failedLog ''log.jsonl'' 1 emptyStore)))"

definition failedEmptyLog :: files where
  "failedEmptyLog = fileAt ''log.jsonl'' [showJs useEntry, showJs failedEmptyEntry]"

text \<open>Scenario A: one invocation \<^verbatim>\<open>t1\<close> of \<^verbatim>\<open>Read\<close>, then its successful result.\<close>

definition okLog :: files where
  "okLog = fileAt ''log.jsonl'' [showJs useEntry, showJs okEntry]"

definition okStore :: store where
  "okStore = snd (processJSONLFile testLib okLog ''log.jsonl'' 1 emptyStore)"

text \<open>
  A store that holds the conversation of the log of scenario A and nothing else, and
  the store the extraction for this conversation leaves.
\<close>

definition sessionStore :: store where
  "sessionStore =
     \<lparr>conversations =
        [\<lparr>c_id = 1, c_conversation_id = JStr ''s1'', c_project_id = JNull,
          c_source_file_path = ''log.jsonl'', c_source_file_type = ''jsonl'', c_started_at = JNull,
          c_ended_at = JNull, c_duration_seconds = JNull, c_message_count = 0, c_model_used = JNull,
          c_claude_code_version = JNull, c_git_branch = JNull, c_working_directory = JNull\<rparr>],
      conversation_entries = [],
      artifacts = [],
      conversation_parse_state = []\<rparr>"

definition extractedStore :: store where
  "extractedStore = snd (processConversationEntries testLib okLog 1 sessionStore)"

text \<open>An invocation whose result came back with an empty payload, and one preceded by the user's request.\<close>

definition emptyResultLog :: files where
  "emptyResultLog = fileAt ''log.jsonl'' [showJs useEntry, showJs emptyEntry]"

definition requestLog :: files where
  "requestLog = fileAt ''log.jsonl'' [showJs askEntry, showJs useEntry, showJs okEntry]"

text \<open>
  A text with a flat object and an empty one, and a store holding a plain-text
  conversation of two entries, the second an assistant message with a fenced block.
\<close>

definition scannedText :: string where
  "scannedText = ''see '' @ showJs noteEntry @ '' and {}''"

definition noteMatch :: json_match where
  "noteMatch = \<lparr>jm_content = showJs noteEntry, jm_parsed = noteEntry, jm_startIndex = 4\<rparr>"

definition transcriptStore :: store where
  "transcriptStore =
     \<lparr>conversations =
        [\<lparr>c_id = 1, c_conversation_id = JStr ''txt-talk'', c_project_id = JNull,
          c_source_file_path = ''talk.txt'', c_source_file_type = ''txt'', c_started_at = JNull,
          c_ended_at = JNull, c_duration_seconds = JNull, c_message_count = 2, c_model_used = JNull,
          c_claude_code_version = JNull, c_git_branch = JNull, c_working_directory = JNull\<rparr>],
      conversation_entries =
        [\<lparr>e_id = 1, e_conversation_id = 1, e_entry_hash = ''h1'', e_entry_index = 0,
          e_role = JStr ''user'', e_content = ''print one'', e_timestamp = JNull\<rparr>,
         \<lparr>e_id = 2, e_conversation_id = 1, e_entry_hash = ''h2'', e_entry_index = 1,
          e_role = JStr ''assistant'',
          e_content = fence @ ''python'' @ [newline] @ ''print(1)'' @ [newline] @ fence,
          e_timestamp = JNull\<rparr>],
      artifacts = [],
      conversation_parse_state = []\<rparr>"

text \<open>The store the extraction for the plain-text conversation leaves.\<close>

definition scannedStore :: store where
  "scannedStore = snd (processConversationEntries testLib noFiles 1 transcriptStore)"

section \<open>Error classification: the first matching rule wins\<close>

lemma firstMatch_unknown:
  "''unknown'' \<notin> snd ` set rs \<Longrightarrow>
   (firstMatch rs t = ''unknown'') = (\<forall>r\<in>set rs. \<not> ruleMatches t r)"
  by (induction rs) auto

lemma firstMatch_in: "firstMatch rs t = ''unknown'' \<or> firstMatch rs t \<in> snd ` set rs"
  by (induction rs) auto

lemma firstMatch_index:
  "distinct (map snd rs) \<Longrightarrow> ''unknown'' \<notin> snd ` set rs \<Longrightarrow> i < length rs \<Longrightarrow>
   (firstMatch rs t = snd (rs ! i)) = (ruleMatches t (rs ! i) \<and> (\<forall>j<i. \<not> ruleMatches t (rs ! j)))"
proof (induction rs arbitrary: i)
  case Nil
  then show ?case by simp
next
  case (Cons r rs)
  show ?case
  proof (cases i)
    case 0
    show ?thesis
    proof (cases "ruleMatches t r")
      case True
      then show ?thesis using 0 by simp
    next
      case False
      have a: "snd r \<notin> snd ` set rs" using Cons.prems(1) by simp
      have b: "snd r \<noteq> ''unknown''" using Cons.prems(2) by auto
      have "firstMatch rs t \<noteq> snd r"
        using firstMatch_in[of rs t] a b by metis
      then show ?thesis using 0 False by simp
    qed
  next
    case (Suc k)
    have k: "k < length rs" using Cons.prems(3) Suc by simp
    have ne: "snd r \<noteq> snd (rs ! k)" using Cons.prems(1) k by (auto simp: image_iff)
    have IH: "(firstMatch rs t = snd (rs ! k))
              = (ruleMatches t (rs ! k) \<and> (\<forall>j<k. \<not> ruleMatches t (rs ! j)))"
      using Cons.IH[of k] Cons.prems k by simp
    show ?thesis
    proof (cases "ruleMatches t r")
      case True
      then show ?thesis using Suc ne by auto
    next
      case False
      have "(\<forall>j<Suc k. \<not> ruleMatches t ((r # rs) ! j)) = (\<forall>j<k. \<not> ruleMatches t (rs ! j))"
        using False by (auto simp: less_Suc_eq_0_disj)
      then show ?thesis using Suc False IH by simp
    qed
  qed
qed

lemma classifyError_firstMatch:
  "classifyError L out err = firstMatch errorRules (toLowerCase (combinedText L out err))"
  by (simp add: classifyError_def errorRules_def ruleMatches_def Let_def)

lemma errorRules_categories:
  "map snd errorRules =
     [''permission'', ''not_found'', ''timeout'', ''network'', ''syntax'', ''validation'']"
  by (simp add: errorRules_def)

lemma errorRules_phrases:
  "map fst errorRules =
     [[''permission denied'', ''access denied''], [''not found'', ''no such file''],
      [''timeout'', ''timed out''], [''connection'', ''network''],
      [''syntax error'', ''parse error''], [''validation'', ''invalid'']]"
  by (simp add: errorRules_def)

lemma str_includes_sublist: "str_includes s p = sublist p s"
  by (induction s) (simp_all add: sublist_Cons_right)

lemma ruleMatches_sublist: "ruleMatches t r = (\<exists>p\<in>set (fst r). \<exists>pre post. t = pre @ p @ post)"
  by (simp add: ruleMatches_def list_ex_iff str_includes_sublist sublist_def)

lemma lowerChar_capital:
  "65 \<le> (of_char c :: nat) \<Longrightarrow> (of_char c :: nat) \<le> 90 \<Longrightarrow> (of_char (lowerChar c) :: nat) = of_char c + 32"
  by (simp add: lowerChar_def Let_def)

lemma lowerChar_other:
  "(of_char c :: nat) < 65 \<or> (90 < (of_char c :: nat) \<and> (of_char c :: nat) < 192) \<Longrightarrow> lowerChar c = c"
  by (auto simp: lowerChar_def Let_def)

lemma combinedText_value:
  "toLowerCase (combinedText L out err)
   = map lowerChar (toStr L (if truthy out then out else JStr []) @ (case err of None \<Rightarrow> [] | Some e \<Rightarrow> e))"
  by (simp add: toLowerCase_def combinedText_def orElse_def)

text \<open>
  Claim C6. \<^verbatim>\<open>classifyError\<close> computes the first match of the ordered rule table
  (permission, not_found, timeout, network, syntax, validation) on the text made of the
  output (the empty string when the output is falsy, its string conversion when it is no
  string) followed at once by the error message, every capital of it turned into its
  small letter: it returns the category of rule \<open>i\<close> exactly when rule \<open>i\<close> matches and
  no earlier rule does, and \<^verbatim>\<open>unknown\<close> exactly when no rule matches. A rule matches
  when one of its phrases stands somewhere in the text.
\<close>

theorem classifyError_first_rule_wins:
  fixes L out err
  defines "t \<equiv> map lowerChar (toStr L (if truthy out then out else JStr [])
                                @ (case err of None \<Rightarrow> [] | Some e \<Rightarrow> e))"
  shows "classifyError L out err = firstMatch errorRules t
    \<and> map snd errorRules =
        [''permission'', ''not_found'', ''timeout'', ''network'', ''syntax'', ''validation'']
    \<and> map fst errorRules =
        [[''permission denied'', ''access denied''], [''not found'', ''no such file''],
         [''timeout'', ''timed out''], [''connection'', ''network''],
         [''syntax error'', ''parse error''], [''validation'', ''invalid'']]
    \<and> (\<forall>i<length errorRules. (classifyError L out err = snd (errorRules ! i))
          = (ruleMatches t (errorRules ! i) \<and> (\<forall>j<i. \<not> ruleMatches t (errorRules ! j))))
    \<and> ((classifyError L out err = ''unknown'') = (\<forall>r\<in>set errorRules. \<not> ruleMatches t r))
    \<and> (\<forall>r. ruleMatches t r = (\<exists>p\<in>set (fst r). \<exists>pre post. t = pre @ p @ post))
    \<and> (\<forall>s e. classifyError L (JStr s) (Some e) = firstMatch errorRules (map lowerChar (s @ e)))
    \<and> (\<forall>c. 65 \<le> (of_char c :: nat) \<and> (of_char c :: nat) \<le> 90
            \<longrightarrow> (of_char (lowerChar c) :: nat) = of_char c + 32)
    \<and> (\<forall>c. (of_char c :: nat) < 65 \<or> (90 < (of_char c :: nat) \<and> (of_char c :: nat) < 192)
            \<longrightarrow> lowerChar c = c)"
proof -
  have d: "distinct (map snd errorRules)" by (simp add: errorRules_categories)
  have u: "''unknown'' \<notin> snd ` set errorRules"
  proof -
    have "snd ` set errorRules = set (map snd errorRules)" by simp
    then show ?thesis by (simp only: errorRules_categories) simp
  qed
  have c: "classifyError L out err = firstMatch errorRules t"
    unfolding t_def by (simp only: classifyError_firstMatch combinedText_value)
  have strings: "\<forall>s e. classifyError L (JStr s) (Some e) = firstMatch errorRules (map lowerChar (s @ e))"
    by (simp add: classifyError_firstMatch combinedText_value toStr_def)
  have order: "(\<forall>i<length errorRules. (classifyError L out err = snd (errorRules ! i))
          = (ruleMatches t (errorRules ! i) \<and> (\<forall>j<i. \<not> ruleMatches t (errorRules ! j))))
    \<and> ((classifyError L out err = ''unknown'') = (\<forall>r\<in>set errorRules. \<not> ruleMatches t r))"
    using firstMatch_index[OF d u, of _ t] firstMatch_unknown[OF u, of t]
    by (simp add: c)
  have phrases: "\<forall>r. ruleMatches t r = (\<exists>p\<in>set (fst r). \<exists>pre post. t = pre @ p @ post)"
    using ruleMatches_sublist by blast
  have capitals: "\<forall>c. 65 \<le> (of_char c :: nat) \<and> (of_char c :: nat) \<le> 90
            \<longrightarrow> (of_char (lowerChar c) :: nat) = of_char c + 32"
    using lowerChar_capital by blast
  have others: "\<forall>c. (of_char c :: nat) < 65 \<or> (90 < (of_char c :: nat) \<and> (of_char c :: nat) < 192)
            \<longrightarrow> lowerChar c = c"
    using lowerChar_other by blast
  show ?thesis
    using c errorRules_categories errorRules_phrases order phrases strings capitals others
    by blast
qed

text \<open>
  A phrase in capitals; a phrase that stands in the error message only, in capitals,
  with the phrase of a later rule beside it; a phrase that begins in the output and
  ends in the error message; an output that is no string; and a text with no phrase.
\<close>

theorem classifyError_first_rule_wins_witness:
  "classifyError testLib (JStr ''ACCESS DENIED'') None = ''permission''
   \<and> classifyError testLib (JStr ''exit 1'') (Some ''Connection TIMED OUT'') = ''timeout''
   \<and> ruleMatches ''exit 1connection timed out'' (errorRules ! 2)
   \<and> ruleMatches ''exit 1connection timed out'' (errorRules ! 3)
   \<and> \<not> ruleMatches ''exit 1connection timed out'' (errorRules ! 0)
   \<and> \<not> ruleMatches ''exit 1connection timed out'' (errorRules ! 1)
   \<and> classifyError testLib (JStr ''File Not '') (Some ''Found'') = ''not_found''
   \<and> classifyError testLib JNull (Some ''Parse Error at 3'') = ''syntax''
   \<and> classifyError testLib (JArr [JStr ''Invalid'']) None = ''validation''
   \<and> classifyError testLib (JStr ''all good'') (Some ''done'') = ''unknown''"
proof -
  have t1: "map lowerChar (toStr testLib (if truthy (JStr ''ACCESS DENIED'') then JStr ''ACCESS DENIED'' else JStr [])
              @ (case None of None \<Rightarrow> [] | Some e \<Rightarrow> e)) = ''access denied''"
    by code_simp
  have t2: "map lowerChar (toStr testLib (if truthy (JStr ''exit 1'') then JStr ''exit 1'' else JStr [])
              @ (case Some ''Connection TIMED OUT'' of None \<Rightarrow> [] | Some e \<Rightarrow> e)) = ''exit 1connection timed out''"
    by code_simp
  have t3: "map lowerChar (toStr testLib (if truthy (JStr ''File Not '') then JStr ''File Not '' else JStr [])
              @ (case Some ''Found'' of None \<Rightarrow> [] | Some e \<Rightarrow> e)) = ''file not found''"
    by code_simp
  have t4: "map lowerChar (toStr testLib (if truthy JNull then JNull else JStr [])
              @ (case Some ''Parse Error at 3'' of None \<Rightarrow> [] | Some e \<Rightarrow> e)) = ''parse error at 3''"
    by code_simp
  have t5: "map lowerChar (toStr testLib (if truthy (JArr [JStr ''Invalid'']) then JArr [JStr ''Invalid''] else JStr [])
              @ (case None of None \<Rightarrow> [] | Some e \<Rightarrow> e)) = [CHR ''[''] @ dq @ ''invalid'' @ dq @ '']''"
    by code_simp
  have t6: "map lowerChar (toStr testLib (if truthy (JStr ''all good'') then JStr ''all good'' else JStr [])
              @ (case Some ''done'' of None \<Rightarrow> [] | Some e \<Rightarrow> e)) = ''all gooddone''"
    by code_simp
  have f1: "firstMatch errorRules ''access denied'' = ''permission''" by code_simp
  have f2: "firstMatch errorRules ''exit 1connection timed out'' = ''timeout''" by code_simp
  have f3: "firstMatch errorRules ''file not found'' = ''not_found''" by code_simp
  have f4: "firstMatch errorRules ''parse error at 3'' = ''syntax''" by code_simp
  have f5: "firstMatch errorRules ([CHR ''[''] @ dq @ ''invalid'' @ dq @ '']'') = ''validation''" by code_simp
  have f6: "firstMatch errorRules ''all gooddone'' = ''unknown''" by code_simp
  have m: "ruleMatches ''exit 1connection timed out'' (errorRules ! 2)
     \<and> ruleMatches ''exit 1connection timed out'' (errorRules ! 3)
     \<and> \<not> ruleMatches ''exit 1connection timed out'' (errorRules ! 0)
     \<and> \<not> ruleMatches ''exit 1connection timed out'' (errorRules ! 1)"
    by code_simp
  have c1: "classifyError testLib (JStr ''ACCESS DENIED'') None = ''permission''"
    using classifyError_first_rule_wins[of testLib "JStr ''ACCESS DENIED''" None, THEN conjunct1] by (simp only: t1 f1)
  have c2: "classifyError testLib (JStr ''exit 1'') (Some ''Connection TIMED OUT'') = ''timeout''"
    using classifyError_first_rule_wins[of testLib "JStr ''exit 1''" "Some ''Connection TIMED OUT''", THEN conjunct1]
    by (simp only: t2 f2)
  have c3: "classifyError testLib (JStr ''File Not '') (Some ''Found'') = ''not_found''"
    using classifyError_first_rule_wins[of testLib "JStr ''File Not ''" "Some ''Found''", THEN conjunct1]
    by (simp only: t3 f3)
  have c4: "classifyError testLib JNull (Some ''Parse Error at 3'') = ''syntax''"
    using classifyError_first_rule_wins[of testLib JNull "Some ''Parse Error at 3''", THEN conjunct1]
    by (simp only: t4 f4)
  have c5: "classifyError testLib (JArr [JStr ''Invalid'']) None = ''validation''"
    using classifyError_first_rule_wins[of testLib "JArr [JStr ''Invalid'']" None, THEN conjunct1]
    by (simp only: t5 f5)
  have c6: "classifyError testLib (JStr ''all good'') (Some ''done'') = ''unknown''"
    using classifyError_first_rule_wins[of testLib "JStr ''all good''" "Some ''done''", THEN conjunct1]
    by (simp only: t6 f6)
  show ?thesis using c1 c2 c3 c4 c5 c6 m by blast
qed

section \<open>The parser: checkpoints\<close>



lemma parseLine_accepted:
  "json_parse L line = Some entry \<Longrightarrow> getProp ''type'' entry = Some ty \<Longrightarrow> acceptedType ty \<Longrightarrow>
   extractRole entry = Some role \<Longrightarrow> extractContent L entry = Some content \<Longrightarrow> truthy content \<Longrightarrow>
   parseLine L c line st =
     afterInsert (sha256 L line) st
       (insertEntry L c (sha256 L line) (entryIndex st) role (strOf content)
          (orElse (optProp ''timestamp'' entry) JNull) (pdb st))"
  by (auto simp: parseLine_def afterInsert_def acceptedType_def Let_def split: option.splits prod.splits)

lemma parseLine_cases:
  "parseLine L c line st = st \<or>
   (\<exists>entry ty role content. json_parse L line = Some entry \<and> getProp ''type'' entry = Some ty \<and>
      acceptedType ty \<and> extractRole entry = Some role \<and> extractContent L entry = Some content \<and>
      truthy content \<and>
      parseLine L c line st =
        afterInsert (sha256 L line) st
          (insertEntry L c (sha256 L line) (entryIndex st) role (strOf content)
             (orElse (optProp ''timestamp'' entry) JNull) (pdb st)))"
proof (cases "json_parse L line")
  case None
  then show ?thesis by (simp add: parseLine_def Let_def)
next
  case (Some entry)
  show ?thesis
  proof (cases "getProp ''type'' entry")
    case None
    then show ?thesis using Some by (simp add: parseLine_def Let_def)
  next
    case ty: (Some ty)
    show ?thesis
    proof (cases "acceptedType ty")
      case False
      then show ?thesis using Some ty by (simp add: parseLine_def acceptedType_def Let_def)
    next
      case True
      show ?thesis
      proof (cases "extractRole entry")
        case None
        then show ?thesis using Some ty by (simp add: parseLine_def Let_def)
      next
        case role: (Some role)
        show ?thesis
        proof (cases "extractContent L entry")
          case None
          then show ?thesis using Some ty role by (simp add: parseLine_def Let_def)
        next
          case content: (Some content)
          show ?thesis
          proof (cases "truthy content")
            case False
            then show ?thesis using Some ty role content by (simp add: parseLine_def Let_def)
          next
            case t: True
            show ?thesis
              using parseLine_accepted[OF Some ty True role content t, of c st] Some ty True role content t
              by blast
          qed
        qed
      qed
    qed
  qed
qed

lemma afterInsert_pdb: "pdb (afterInsert h st r) = snd r"
  by (simp add: afterInsert_def split: option.splits)



lemma findOrCreateConversation_frame:
  "conversation_parse_state (snd (findOrCreateConversation L s p t md db)) = conversation_parse_state db"
  "conversation_entries (snd (findOrCreateConversation L s p t md db)) = conversation_entries db"
  "artifacts (snd (findOrCreateConversation L s p t md db)) = artifacts db"
  by (simp_all add: findOrCreateConversation_def Let_def split: option.splits)

lemma setProject_frame:
  "setProject L pr c db = Some db' \<Longrightarrow> conversation_parse_state db' = conversation_parse_state db"
  "setProject L pr c db = Some db' \<Longrightarrow> conversation_entries db' = conversation_entries db"
  "setProject L pr c db = Some db' \<Longrightarrow> artifacts db' = artifacts db"
  by (auto simp: setProject_def split: if_splits)

lemma updateConversationStats_frame:
  "conversation_parse_state (updateConversationStats L c db) = conversation_parse_state db"
  "conversation_entries (updateConversationStats L c db) = conversation_entries db"
  "artifacts (updateConversationStats L c db) = artifacts db"
  by (simp_all add: updateConversationStats_def Let_def)

lemma updateParseState_frame:
  "conversation_entries (updateParseState p n h db) = conversation_entries db"
  "conversations (updateParseState p n h db) = conversations db"
  "artifacts (updateParseState p n h db) = artifacts db"
  by (simp_all add: updateParseState_def)



text \<open>
  The two ways \<^verbatim>\<open>parseJSONL\<close> ends on a file with lines beyond the checkpoint: an
  exception before the loop, with entries and checkpoints as they were, or the loop
  over the new lines from a store with the same entries and checkpoints, followed by
  the update of the checkpoint and of the statistics.
\<close>

lemma parseJSONL_run:
  assumes "fs filePath = Some content"
    and "checkpoint db filePath < length (nonEmptyLines content)"
  shows "(fst (parseJSONL L fs filePath projectId db) = None
          \<and> conversation_parse_state (snd (parseJSONL L fs filePath projectId db)) = conversation_parse_state db
          \<and> conversation_entries (snd (parseJSONL L fs filePath projectId db)) = conversation_entries db)
       \<or> (\<exists>c db1 st.
            conversation_parse_state db1 = conversation_parse_state db
          \<and> conversation_entries db1 = conversation_entries db
          \<and> st = parseLines L c (drop (checkpoint db filePath) (nonEmptyLines content))
                   \<lparr>newEntries = 0, skipped = 0, entryIndex = checkpoint db filePath,
                    lastHash = JNull, pdb = db1\<rparr>
          \<and> parseJSONL L fs filePath projectId db
              = (Some (Inr \<lparr>r_conversationId = Some c,
                            r_sessionId = Some (fst (sessionOf L filePath content)),
                            r_newEntries = newEntries st, r_skipped = skipped st,
                            r_totalLines = Some (length (nonEmptyLines content))\<rparr>),
                 updateConversationStats L c
                   (updateParseState filePath (length (nonEmptyLines content)) (lastHash st) (pdb st))))"
proof -
  let ?sid = "fst (sessionOf L filePath content)"
  let ?md = "snd (sessionOf L filePath content)"
  let ?foc = "findOrCreateConversation L ?sid filePath ''jsonl'' ?md db"
  have start: "\<not> length (nonEmptyLines content) \<le> (case getParseState db filePath of None \<Rightarrow> 0
                 | Some parseState \<Rightarrow> ps_last_line_number parseState)"
    using assms(2) by (simp add: checkpoint_def)
  have start': "(case getParseState db filePath of None \<Rightarrow> 0
                 | Some parseState \<Rightarrow> ps_last_line_number parseState) = checkpoint db filePath"
    by (simp add: checkpoint_def)
  obtain r db0 where foc: "?foc = (r, db0)" by (cases ?foc)
  have f0: "conversation_parse_state db0 = conversation_parse_state db"
           "conversation_entries db0 = conversation_entries db"
    using findOrCreateConversation_frame(1,2)[of L ?sid filePath "''jsonl''" ?md db] foc by simp_all
  show ?thesis
  proof (cases r)
    case None
    then have "parseJSONL L fs filePath projectId db = (None, db0)"
      using assms(1) start foc by (simp add: parseJSONL_def Let_def sessionOf_def)
    then show ?thesis using f0 by simp
  next
    case (Some conversation)
    show ?thesis
    proof (cases "setProject L projectId conversation db0")
      case None
      then have "parseJSONL L fs filePath projectId db = (None, db0)"
        using assms(1) start foc Some by (simp add: parseJSONL_def Let_def sessionOf_def)
      then show ?thesis using f0 by simp
    next
      case sp: (Some db1)
      let ?st = "parseLines L (c_id conversation) (drop (checkpoint db filePath) (nonEmptyLines content))
                   \<lparr>newEntries = 0, skipped = 0, entryIndex = checkpoint db filePath,
                    lastHash = JNull, pdb = db1\<rparr>"
      have f1: "conversation_parse_state db1 = conversation_parse_state db"
               "conversation_entries db1 = conversation_entries db"
        using setProject_frame(1,2)[OF sp] f0 by simp_all
      have "parseJSONL L fs filePath projectId db
              = (Some (Inr \<lparr>r_conversationId = Some (c_id conversation),
                            r_sessionId = Some ?sid,
                            r_newEntries = newEntries ?st, r_skipped = skipped ?st,
                            r_totalLines = Some (length (nonEmptyLines content))\<rparr>),
                 updateConversationStats L (c_id conversation)
                   (updateParseState filePath (length (nonEmptyLines content)) (lastHash ?st) (pdb ?st)))"
        using assms start foc Some sp
        by (simp add: parseJSONL_def Let_def sessionOf_def start')
      then show ?thesis using f1 by blast
    qed
  qed
qed

lemma parseJSONL_idle:
  assumes "fs filePath = None \<or> (\<exists>content. fs filePath = Some content
             \<and> length (nonEmptyLines content) \<le> checkpoint db filePath)"
  shows "snd (parseJSONL L fs filePath projectId db) = db"
    and "fst (parseJSONL L fs filePath projectId db) \<noteq> None"
  using assms by (auto simp: parseJSONL_def Let_def checkpoint_def)









text \<open>
  The ways \<^verbatim>\<open>parseTXT\<close> ends on a file that is there and has changed: an exception
  before the loop, or the loop over the segments from a store with the same entries and
  checkpoints, followed, when the loop returns, by the two updates.
\<close>

lemma parseTXT_run:
  assumes "fs filePath = Some content"
  shows "snd (parseTXT L fs filePath projectId db) = db
       \<or> (conversation_parse_state (snd (parseTXT L fs filePath projectId db)) = conversation_parse_state db
          \<and> conversation_entries (snd (parseTXT L fs filePath projectId db)) = conversation_entries db)
       \<or> (\<exists>c db1 blocks st0. conversation_parse_state db1 = conversation_parse_state db
            \<and> conversation_entries db1 = conversation_entries db \<and> tdb st0 = db1
            \<and> (snd (parseTXT L fs filePath projectId db) = snd (parseBlocks L c blocks st0)
               \<or> (\<exists>n h. snd (parseTXT L fs filePath projectId db)
                    = updateConversationStats L c (updateParseState filePath n h (snd (parseBlocks L c blocks st0))))))"
proof (cases "case getParseState db filePath of None \<Rightarrow> False
               | Some parseState \<Rightarrow> ps_last_entry_hash parseState = JStr (sha256 L content)")
  case True
  then show ?thesis using assms by (simp add: parseTXT_def Let_def)
next
  case False
  let ?sid = "JStr (''txt-'' @ replaceFirst ''.txt'' [] (lastSegment isPathSep filePath))"
  let ?foc = "findOrCreateConversation L ?sid filePath ''txt'' noMetadata db"
  obtain r db0 where foc: "?foc = (r, db0)" by (cases ?foc)
  have f0: "conversation_parse_state db0 = conversation_parse_state db"
           "conversation_entries db0 = conversation_entries db"
    using findOrCreateConversation_frame(1,2)[of L ?sid filePath "''txt''" noMetadata db] foc by simp_all
  show ?thesis
  proof (cases r)
    case None
    then have "parseTXT L fs filePath projectId db = (None, db0)"
      using assms False foc by (simp add: parseTXT_def Let_def)
    then show ?thesis using f0 by simp
  next
    case (Some conversation)
    show ?thesis
    proof (cases "setProject L projectId conversation db0")
      case None
      then have "parseTXT L fs filePath projectId db = (None, db0)"
        using assms False foc Some by (simp add: parseTXT_def Let_def)
      then show ?thesis using f0 by simp
    next
      case sp: (Some db1)
      let ?st0 = "\<lparr>t_newEntries = 0, t_skipped = 0, t_currentRole = ''user'', t_entryIndex = 0, tdb = db1\<rparr>"
      let ?blocks = "filter (\<lambda>s. trim s \<noteq> []) (split_roles L content)"
      let ?loop = "parseBlocks L (c_id conversation) ?blocks ?st0"
      have f1: "conversation_parse_state db1 = conversation_parse_state db"
               "conversation_entries db1 = conversation_entries db"
        using setProject_frame(1,2)[OF sp] f0 by simp_all
      have "snd (parseTXT L fs filePath projectId db) = snd ?loop
            \<or> snd (parseTXT L fs filePath projectId db)
                = updateConversationStats L (c_id conversation)
                    (updateParseState filePath 0 (JStr (sha256 L content)) (snd ?loop))"
        using assms False foc Some sp
        by (cases ?loop) (auto simp: parseTXT_def Let_def split: option.splits)
      moreover have "tdb ?st0 = db1" by simp
      ultimately show ?thesis using f1 by blast
    qed
  qed
qed






section \<open>The parser: typed failures\<close>

text \<open>
  Claim C7, as amended. A path whose extension is neither \<^verbatim>\<open>jsonl\<close> nor
  \<^verbatim>\<open>txt\<close> gives \<^verbatim>\<open>UnknownFormat\<close>, whether the file exists or not; a path with
  one of the two extensions that names a missing file gives \<^verbatim>\<open>FileNotFound\<close>; in
  both cases the store is returned as it was.
\<close>

theorem processFile_typed_failures:
  "(fileExt filePath \<noteq> ''jsonl'' \<and> fileExt filePath \<noteq> ''txt''
      \<longrightarrow> processFile L fs filePath projectId db = (Some (Inl UnknownFormat), db))
   \<and> ((fileExt filePath = ''jsonl'' \<or> fileExt filePath = ''txt'') \<and> fs filePath = None
      \<longrightarrow> processFile L fs filePath projectId db = (Some (Inl FileNotFound), db))"
proof (intro conjI impI)
  assume "fileExt filePath \<noteq> ''jsonl'' \<and> fileExt filePath \<noteq> ''txt''"
  then show "processFile L fs filePath projectId db = (Some (Inl UnknownFormat), db)"
    by (simp add: processFile_def)
next
  assume a: "(fileExt filePath = ''jsonl'' \<or> fileExt filePath = ''txt'') \<and> fs filePath = None"
  then have missing: "fs filePath = None" by simp
  have j: "parseJSONL L fs filePath projectId db = (Some (Inl FileNotFound), db)"
    using missing by (simp add: parseJSONL_def)
  have t: "parseTXT L fs filePath projectId db = (Some (Inl FileNotFound), db)"
    using missing by (simp add: parseTXT_def)
  show "processFile L fs filePath projectId db = (Some (Inl FileNotFound), db)"
    using a j t by (auto simp: processFile_def)
qed

theorem processFile_typed_failures_witness:
  "fileExt ''notes.md'' \<noteq> ''jsonl'' \<and> fileExt ''notes.md'' \<noteq> ''txt''
   \<and> processFile testLib brokenLog ''notes.md'' JNull emptyStore = (Some (Inl UnknownFormat), emptyStore)
   \<and> fileExt ''old.JSONL'' = ''jsonl'' \<and> brokenLog ''old.JSONL'' = None
   \<and> processFile testLib brokenLog ''old.JSONL'' JNull emptyStore = (Some (Inl FileNotFound), emptyStore)"
proof -
  have e1: "fileExt ''notes.md'' \<noteq> ''jsonl'' \<and> fileExt ''notes.md'' \<noteq> ''txt''" by code_simp
  have e2: "fileExt ''old.JSONL'' = ''jsonl''" by code_simp
  have m: "brokenLog ''old.JSONL'' = None" by (simp add: brokenLog_def)
  have u: "processFile testLib brokenLog ''notes.md'' JNull emptyStore = (Some (Inl UnknownFormat), emptyStore)"
    using processFile_typed_failures[of "''notes.md''" testLib brokenLog JNull emptyStore] e1 by simp
  have n: "processFile testLib brokenLog ''old.JSONL'' JNull emptyStore = (Some (Inl FileNotFound), emptyStore)"
    using processFile_typed_failures[of "''old.JSONL''" testLib brokenLog JNull emptyStore] e2 m by simp
  show ?thesis using e1 e2 m u n by simp
qed

text \<open>
  The claim as stated fails on a missing file whose extension is not recognised: the
  extension is looked at first, and the failure is \<^verbatim>\<open>UnknownFormat\<close>.
\<close>

theorem processFile_missing_unknown_extension:
  "noFiles ''notes.md'' = None
   \<and> fst (processFile testLib noFiles ''notes.md'' JNull emptyStore) = Some (Inl UnknownFormat)
   \<and> fst (processFile testLib noFiles ''notes.md'' JNull emptyStore) \<noteq> Some (Inl FileNotFound)"
proof -
  have e: "fileExt ''notes.md'' \<noteq> ''jsonl'' \<and> fileExt ''notes.md'' \<noteq> ''txt''" by code_simp
  then have "processFile testLib noFiles ''notes.md'' JNull emptyStore = (Some (Inl UnknownFormat), emptyStore)"
    by (simp add: processFile_def)
  then show ?thesis by (simp add: noFiles_def)
qed

section \<open>The parser: one entry per conversation and hash\<close>

lemma uniqueEntries_keys: "uniqueEntries db = distinct (map entryKey (conversation_entries db))"
  by (simp add: uniqueEntries_def entryKey_def[abs_def])

lemma entryExists_keys: "entryExists db c h = ((c, h) \<in> entryKey ` set (conversation_entries db))"
  by (auto simp: entryExists_def entryKey_def list_ex_iff image_iff)

lemma uniqueEntries_cong:
  "conversation_entries db' = conversation_entries db \<Longrightarrow> uniqueEntries db' = uniqueEntries db"
  by (simp add: uniqueEntries_def)

lemma insertEntry_unique:
  "uniqueEntries db \<Longrightarrow> uniqueEntries (snd (insertEntry L c h i role content ts db))"
  by (auto simp: insertEntry_def uniqueEntries_keys entryExists_keys entryKey_def)

lemma insertEntry_duplicate:
  "entryExists db c h \<Longrightarrow> \<not> isNullish role \<Longrightarrow> bindable role \<Longrightarrow> bindable ts \<Longrightarrow>
   insertEntry L c h i role content ts db = (Some False, db)"
  by (simp add: insertEntry_def)

lemma insertEntry_existing:
  "entryExists db c h \<Longrightarrow> snd (insertEntry L c h i role content ts db) = db"
  by (simp add: insertEntry_def)


lemma truthy_not_nullish: "truthy v \<Longrightarrow> \<not> isNullish v"
  by (auto simp: isNullish_def)

lemma extractRole_total:
  "\<not> isNullish entry \<Longrightarrow> \<exists>role. extractRole entry = Some role"
  by (simp add: extractRole_def)

lemma extractRole_not_nullish: "extractRole entry = Some role \<Longrightarrow> \<not> isNullish role"
  by (auto simp: extractRole_def isNullish_def split: if_splits dest: truthy_not_nullish)

lemma getProp_Some_not_nullish: "getProp k v = Some w \<Longrightarrow> \<not> isNullish v"
  by (cases v) (auto simp: isNullish_def)


lemma parseLine_unique: "uniqueEntries (pdb st) \<Longrightarrow> uniqueEntries (pdb (parseLine L c line st))"
  using parseLine_cases[of L c line st] by (auto simp: afterInsert_pdb insertEntry_unique)

lemma parseLines_unique: "uniqueEntries (pdb st) \<Longrightarrow> uniqueEntries (pdb (parseLines L c lines st))"
  by (induction lines arbitrary: st) (simp_all add: parseLine_unique)

lemma parseBlocks_unique: "uniqueEntries (tdb st) \<Longrightarrow> uniqueEntries (snd (parseBlocks L c blocks st))"
proof (induction blocks arbitrary: st)
  case Nil
  then show ?case by simp
next
  case (Cons b rest)
  have ins: "\<And>h i role content ts r db'. insertEntry L c h i role content ts (tdb st) = (r, db')
     \<Longrightarrow> uniqueEntries db'"
    using insertEntry_unique[OF Cons.prems] by (metis snd_conv)
  show ?case
    using Cons.prems by (auto simp: Let_def Cons.IH split: prod.splits option.splits dest: ins)
qed

lemma parseJSONL_unique:
  assumes u: "uniqueEntries db"
  shows "uniqueEntries (snd (parseJSONL L fs filePath projectId db))"
proof (cases "\<exists>content. fs filePath = Some content \<and> checkpoint db filePath < length (nonEmptyLines content)")
  case False
  then have "snd (parseJSONL L fs filePath projectId db) = db"
    using parseJSONL_idle(1)[of fs filePath db L projectId] by (cases "fs filePath") auto
  then show ?thesis using u by simp
next
  case True
  then obtain content where f: "fs filePath = Some content"
    and lt: "checkpoint db filePath < length (nonEmptyLines content)" by blast
  from parseJSONL_run[where fs = fs and filePath = filePath and content = content and db = db
      and L = L and projectId = projectId, OF f lt]
  show ?thesis
  proof
    assume "fst (parseJSONL L fs filePath projectId db) = None
          \<and> conversation_parse_state (snd (parseJSONL L fs filePath projectId db)) = conversation_parse_state db
          \<and> conversation_entries (snd (parseJSONL L fs filePath projectId db)) = conversation_entries db"
    then show ?thesis using u by (simp add: uniqueEntries_def)
  next
    assume "\<exists>c db1 st.
            conversation_parse_state db1 = conversation_parse_state db
          \<and> conversation_entries db1 = conversation_entries db
          \<and> st = parseLines L c (drop (checkpoint db filePath) (nonEmptyLines content))
                   \<lparr>newEntries = 0, skipped = 0, entryIndex = checkpoint db filePath,
                    lastHash = JNull, pdb = db1\<rparr>
          \<and> parseJSONL L fs filePath projectId db
              = (Some (Inr \<lparr>r_conversationId = Some c,
                            r_sessionId = Some (fst (sessionOf L filePath content)),
                            r_newEntries = newEntries st, r_skipped = skipped st,
                            r_totalLines = Some (length (nonEmptyLines content))\<rparr>),
                 updateConversationStats L c
                   (updateParseState filePath (length (nonEmptyLines content)) (lastHash st) (pdb st)))"
    then obtain c db1 st where
      e: "conversation_entries db1 = conversation_entries db"
      and st: "st = parseLines L c (drop (checkpoint db filePath) (nonEmptyLines content))
                   \<lparr>newEntries = 0, skipped = 0, entryIndex = checkpoint db filePath,
                    lastHash = JNull, pdb = db1\<rparr>"
      and run: "snd (parseJSONL L fs filePath projectId db)
                = updateConversationStats L c
                    (updateParseState filePath (length (nonEmptyLines content)) (lastHash st) (pdb st))"
      by fastforce
    have "uniqueEntries db1" using u e by (simp add: uniqueEntries_def)
    then have "uniqueEntries (pdb st)" using st parseLines_unique by simp
    then show ?thesis
      using run
      by (simp add: uniqueEntries_cong[OF updateConversationStats_frame(2)]
          uniqueEntries_cong[OF updateParseState_frame(1)])
  qed
qed

lemma parseTXT_unique:
  assumes u: "uniqueEntries db"
  shows "uniqueEntries (snd (parseTXT L fs filePath projectId db))"
proof (cases "fs filePath")
  case None
  then show ?thesis using u by (simp add: parseTXT_def)
next
  case (Some content)
  from parseTXT_run[where fs = fs and filePath = filePath and content = content and db = db
      and L = L and projectId = projectId, OF Some]
  consider "snd (parseTXT L fs filePath projectId db) = db"
    | "conversation_entries (snd (parseTXT L fs filePath projectId db)) = conversation_entries db"
    | c db1 blocks st0 where "conversation_entries db1 = conversation_entries db" "tdb st0 = db1"
        "snd (parseTXT L fs filePath projectId db) = snd (parseBlocks L c blocks st0)"
    | c db1 blocks st0 n h where "conversation_entries db1 = conversation_entries db" "tdb st0 = db1"
        "snd (parseTXT L fs filePath projectId db)
           = updateConversationStats L c (updateParseState filePath n h (snd (parseBlocks L c blocks st0)))"
    by blast
  then show ?thesis
  proof cases
    case 1
    then show ?thesis using u by simp
  next
    case 2
    then show ?thesis using u by (simp add: uniqueEntries_def)
  next
    case 3
    have "uniqueEntries (tdb st0)" using u 3(1,2) by (simp add: uniqueEntries_def)
    then have "uniqueEntries (snd (parseBlocks L c blocks st0))" by (rule parseBlocks_unique)
    then show ?thesis using 3(3) by simp
  next
    case 4
    have "uniqueEntries (tdb st0)" using u 4(1,2) by (simp add: uniqueEntries_def)
    then have "uniqueEntries (snd (parseBlocks L c blocks st0))" by (rule parseBlocks_unique)
    then show ?thesis
      using 4(3)
      by (simp add: uniqueEntries_cong[OF updateConversationStats_frame(2)]
          uniqueEntries_cong[OF updateParseState_frame(1)])
  qed
qed

lemma processFile_unique:
  "uniqueEntries db \<Longrightarrow> uniqueEntries (snd (processFile L fs filePath projectId db))"
  by (simp add: processFile_def parseTXT_unique parseJSONL_unique)

lemma afterInsert_count:
  "length (conversation_entries (snd (insertEntry L c h i role content ts (pdb st)))) + newEntries st
   = length (conversation_entries (pdb st))
     + newEntries (afterInsert h' st (insertEntry L c h i role content ts (pdb st)))"
  by (simp add: afterInsert_def insertEntry_def)

lemma parseLine_count:
  "length (conversation_entries (pdb (parseLine L c line st))) + newEntries st
   = length (conversation_entries (pdb st)) + newEntries (parseLine L c line st)"
  using parseLine_cases[of L c line st] afterInsert_count
  by (auto simp: afterInsert_pdb)

lemma parseLines_count:
  "length (conversation_entries (pdb (parseLines L c lines st))) + newEntries st
   = length (conversation_entries (pdb st)) + newEntries (parseLines L c lines st)"
proof (induction lines arbitrary: st)
  case Nil
  then show ?case by simp
next
  case (Cons line rest)
  show ?case
    using Cons.IH[of "parseLine L c line st"] parseLine_count[of L c line st] by simp
qed

lemma parseJSONL_count:
  assumes run: "parseJSONL L fs filePath projectId db = (Some (Inr r), db')"
  shows "length (conversation_entries db') = length (conversation_entries db) + r_newEntries r"
proof (cases "\<exists>content. fs filePath = Some content \<and> checkpoint db filePath < length (nonEmptyLines content)")
  case False
  then have "fs filePath = None \<or> (\<exists>content. fs filePath = Some content
             \<and> length (nonEmptyLines content) \<le> checkpoint db filePath)"
    by (cases "fs filePath") auto
  then show ?thesis
    using run by (auto simp: parseJSONL_def Let_def checkpoint_def nothingNew_def)
next
  case True
  then obtain content where f: "fs filePath = Some content"
    and lt: "checkpoint db filePath < length (nonEmptyLines content)" by blast
  from parseJSONL_run[where fs = fs and filePath = filePath and content = content and db = db
      and L = L and projectId = projectId, OF f lt] run
  obtain c db1 st where
      e: "conversation_entries db1 = conversation_entries db"
      and st: "st = parseLines L c (drop (checkpoint db filePath) (nonEmptyLines content))
                   \<lparr>newEntries = 0, skipped = 0, entryIndex = checkpoint db filePath,
                    lastHash = JNull, pdb = db1\<rparr>"
      and r: "r_newEntries r = newEntries st"
      and db': "db' = updateConversationStats L c
                    (updateParseState filePath (length (nonEmptyLines content)) (lastHash st) (pdb st))"
    by fastforce
  have "length (conversation_entries (pdb st)) = length (conversation_entries db1) + newEntries st"
    using parseLines_count[of L c "drop (checkpoint db filePath) (nonEmptyLines content)"
        "\<lparr>newEntries = 0, skipped = 0, entryIndex = checkpoint db filePath, lastHash = JNull, pdb = db1\<rparr>"]
      st by simp
  then show ?thesis
    using e r db' by (simp add: updateConversationStats_frame updateParseState_frame)
qed

lemma parseLine_duplicate:
  assumes "json_parse L line = Some entry" "getProp ''type'' entry = Some ty" "acceptedType ty"
    "extractContent L entry = Some content" "truthy content"
    "entryExists (pdb st) c (sha256 L line)"
    "extractRole entry = Some role" "bindable role" "bindable (orElse (optProp ''timestamp'' entry) JNull)"
  shows "parseLine L c line st =
           st\<lparr>skipped := skipped st + 1, entryIndex := entryIndex st + 1, lastHash := JStr (sha256 L line)\<rparr>"
proof -
  have nn: "\<not> isNullish role" using assms(7) by (rule extractRole_not_nullish)
  show ?thesis
    using parseLine_accepted[OF assms(1,2,3,7,4,5), of c st]
      insertEntry_duplicate[OF assms(6) nn assms(8,9)]
    by (simp add: afterInsert_def)
qed

lemma parseLine_existing:
  assumes "entryExists (pdb st) c (sha256 L line)"
  shows "pdb (parseLine L c line st) = pdb st"
  using parseLine_cases[of L c line st] insertEntry_existing[OF assms]
  by (auto simp: afterInsert_pdb)

text \<open>
  Claim C3. No two stored entries of a conversation share their hash: the property is
  kept by \<^verbatim>\<open>insertEntry\<close>, by \<^verbatim>\<open>parseJSONL\<close> and by \<^verbatim>\<open>processFile\<close> on any
  file and any store, so by any sequence of parses. An insert whose pair of conversation
  and hash is stored already leaves the store as it was, and returns \<^verbatim>\<open>false\<close> when
  the driver takes its role and timestamp; in the loop of \<^verbatim>\<open>parseJSONL\<close> a line
  whose hash is stored already leaves the store as it was, and adds one to the skip
  counter when the line is accepted and the driver takes its role and timestamp; and the
  reported number of new entries is the number of rows added.
\<close>

theorem entries_unique_per_conversation:
  "(uniqueEntries db \<longrightarrow>
      uniqueEntries (snd (insertEntry L c h i role content ts db))
      \<and> uniqueEntries (snd (parseJSONL L fs filePath projectId db))
      \<and> uniqueEntries (snd (processFile L fs filePath projectId db)))
   \<and> (entryExists db c h \<longrightarrow> snd (insertEntry L c h i role content ts db) = db)
   \<and> (entryExists db c h \<and> \<not> isNullish role \<and> bindable role \<and> bindable ts
        \<longrightarrow> insertEntry L c h i role content ts db = (Some False, db))
   \<and> (entryExists (pdb st) c (sha256 L line) \<longrightarrow> pdb (parseLine L c line st) = pdb st)
   \<and> (json_parse L line = Some entry \<and> getProp ''type'' entry = Some ty \<and> acceptedType ty
        \<and> extractContent L entry = Some body \<and> truthy body
        \<and> entryExists (pdb st) c (sha256 L line)
        \<and> extractRole entry = Some r \<and> bindable r \<and> bindable (orElse (optProp ''timestamp'' entry) JNull)
        \<longrightarrow> parseLine L c line st =
              st\<lparr>skipped := skipped st + 1, entryIndex := entryIndex st + 1,
                 lastHash := JStr (sha256 L line)\<rparr>)
   \<and> (parseJSONL L fs filePath projectId db = (Some (Inr rep), db')
        \<longrightarrow> length (conversation_entries db') = length (conversation_entries db) + r_newEntries rep)"
proof (intro conjI impI)
  assume u: "uniqueEntries db"
  show "uniqueEntries (snd (insertEntry L c h i role content ts db))"
    using u by (rule insertEntry_unique)
  show "uniqueEntries (snd (parseJSONL L fs filePath projectId db))"
    using u by (rule parseJSONL_unique)
  show "uniqueEntries (snd (processFile L fs filePath projectId db))"
    using u by (rule processFile_unique)
next
  assume "entryExists db c h"
  then show "snd (insertEntry L c h i role content ts db) = db"
    by (rule insertEntry_existing)
next
  assume "entryExists db c h \<and> \<not> isNullish role \<and> bindable role \<and> bindable ts"
  then show "insertEntry L c h i role content ts db = (Some False, db)"
    by (simp add: insertEntry_duplicate)
next
  assume "entryExists (pdb st) c (sha256 L line)"
  then show "pdb (parseLine L c line st) = pdb st"
    by (rule parseLine_existing)
next
  assume a: "json_parse L line = Some entry \<and> getProp ''type'' entry = Some ty \<and> acceptedType ty
        \<and> extractContent L entry = Some body \<and> truthy body
        \<and> entryExists (pdb st) c (sha256 L line)
        \<and> extractRole entry = Some r \<and> bindable r \<and> bindable (orElse (optProp ''timestamp'' entry) JNull)"
  show "parseLine L c line st =
          st\<lparr>skipped := skipped st + 1, entryIndex := entryIndex st + 1,
             lastHash := JStr (sha256 L line)\<rparr>"
    using a parseLine_duplicate[of L line entry ty body st c r] by blast
next
  assume "parseJSONL L fs filePath projectId db = (Some (Inr rep), db')"
  then show "length (conversation_entries db') = length (conversation_entries db) + r_newEntries rep"
    by (rule parseJSONL_count)
qed

theorem entries_unique_per_conversation_witness:
  "uniqueEntries emptyStore
   \<and> fst (parseJSONL testLib doubledLog ''log.jsonl'' JNull emptyStore)
       = Some (Inr \<lparr>r_conversationId = Some 1, r_sessionId = Some (JStr ''s1''), r_newEntries = 1,
               r_skipped = 1, r_totalLines = Some 2\<rparr>)
   \<and> uniqueEntries seededStore
   \<and> length (conversation_entries seededStore) = 1
   \<and> entryExists seededStore 1 (sha256 testLib askLine)
   \<and> insertEntry testLib 1 (sha256 testLib askLine) 2 (JStr ''user'') ''again'' JNull seededStore
       = (Some False, seededStore)
   \<and> parseLine testLib 1 askLine seededLoop
       = seededLoop\<lparr>skipped := 1, entryIndex := 3, lastHash := JStr (sha256 testLib askLine)\<rparr>"
proof -
  let ?r = "\<lparr>r_conversationId = Some 1, r_sessionId = Some (JStr ''s1''), r_newEntries = 1,
              r_skipped = 1, r_totalLines = Some 2\<rparr>"
  have u0: "uniqueEntries emptyStore" by (simp add: uniqueEntries_def emptyStore_def)
  have r: "fst (parseJSONL testLib doubledLog ''log.jsonl'' JNull emptyStore) = Some (Inr ?r)"
    by code_simp
  then have run: "parseJSONL testLib doubledLog ''log.jsonl'' JNull emptyStore = (Some (Inr ?r), seededStore)"
    by (simp add: seededStore_def prod_eq_iff)
  have ex: "entryExists seededStore 1 (sha256 testLib askLine)" by code_simp
  have nn: "\<not> isNullish (JStr ''user'')" by (simp add: isNullish_def)
  have p: "json_parse testLib askLine = Some askEntry" by code_simp
  have ty: "getProp ''type'' askEntry = Some (JStr ''user'')" by code_simp
  have acc: "acceptedType (JStr ''user'')" by (simp add: acceptedType_def)
  have cnt: "extractContent testLib askEntry = Some (JStr ''please read a.txt'')" by code_simp
  have role: "extractRole askEntry = Some (JStr ''user'')" by code_simp
  have ts: "orElse (optProp ''timestamp'' askEntry) JNull = JNull" by code_simp
  have exl: "entryExists (pdb seededLoop) 1 (sha256 testLib askLine)"
    using ex by (simp add: seededLoop_def)
  have u1: "uniqueEntries seededStore"
    using entries_unique_per_conversation[where db = emptyStore and L = testLib and fs = doubledLog
        and filePath = "''log.jsonl''" and projectId = JNull] u0
    by (simp add: seededStore_def)
  have len: "length (conversation_entries seededStore) = 1"
    using entries_unique_per_conversation[where db = emptyStore and L = testLib and fs = doubledLog
        and filePath = "''log.jsonl''" and projectId = JNull and rep = ?r and db' = seededStore] run
    by (simp add: emptyStore_def)
  have dup: "insertEntry testLib 1 (sha256 testLib askLine) 2 (JStr ''user'') ''again'' JNull seededStore
             = (Some False, seededStore)"
    using entries_unique_per_conversation[where db = seededStore and c = 1 and L = testLib
        and h = "sha256 testLib askLine" and i = 2 and role = "JStr ''user''" and content = "''again''"
        and ts = JNull] ex nn
    by simp
  have skip: "parseLine testLib 1 askLine seededLoop
       = seededLoop\<lparr>skipped := skipped seededLoop + 1, entryIndex := entryIndex seededLoop + 1,
                     lastHash := JStr (sha256 testLib askLine)\<rparr>"
    using entries_unique_per_conversation[where c = 1 and L = testLib and line = askLine
        and entry = askEntry and ty = "JStr ''user''" and body = "JStr ''please read a.txt''"
        and st = seededLoop and r = "JStr ''user''"] p ty acc cnt exl role ts
    by simp
  have skipped1: "parseLine testLib 1 askLine seededLoop
       = seededLoop\<lparr>skipped := 1, entryIndex := 3, lastHash := JStr (sha256 testLib askLine)\<rparr>"
    using skip by (simp add: seededLoop_def)
  show ?thesis using u0 r u1 len ex dup skipped1 by blast
qed

section \<open>The parser: the role of a stored entry\<close>














section \<open>Extraction: what one run adds to the store\<close>

lemma artifacts_storeArtifact:
  "storeArtifact L a db = Some db' \<Longrightarrow> artifacts db' = artifacts db @ [artifactRow L a]"
  by (auto simp: storeArtifact_def split: if_splits)

lemma storeArtifact_frame:
  "storeArtifact L a db = Some db' \<Longrightarrow>
   conversations db' = conversations db \<and> conversation_entries db' = conversation_entries db"
  by (auto simp: storeArtifact_def split: if_splits)

lemma artifactExists_storeArtifact:
  "storeArtifact L a db = Some db' \<Longrightarrow>
   artifactExists db' c h = (artifactExists db c h \<or> (a_conversationId a = c \<and> a_contentHash a = h))"
  by (auto simp: artifactExists_def storeArtifact_def artifactRow_def split: if_splits)

lemma artifactExists_mono:
  "set (artifacts db) \<subseteq> set (artifacts db') \<Longrightarrow> artifactExists db c h \<Longrightarrow> artifactExists db' c h"
  by (auto simp: artifactExists_def list_ex_iff)

lemma toolCallArtifact_key:
  "a_conversationId (toolCallArtifact L c toolId call ctx) = c"
  "a_contentHash (toolCallArtifact L c toolId call ctx) = toolCallHash L toolId call"
  "a_type (toolCallArtifact L c toolId call ctx) = ''tool_call''"
  by (simp_all add: toolCallArtifact_def blankArtifact_def Let_def)

lemma toolResultArtifact_key:
  "a_conversationId (toolResultArtifact L c toolId call) = c"
  "a_contentHash (toolResultArtifact L c toolId call) = toolResultHash L toolId call"
  "a_type (toolResultArtifact L c toolId call) = ''tool_result''"
  by (simp_all add: toolResultArtifact_def blankArtifact_def Let_def)

lemma codeBlockArtifact_key:
  "a_conversationId (codeBlockArtifact c h block ctx) = c"
  "a_contentHash (codeBlockArtifact c h block ctx) = h"
  "a_type (codeBlockArtifact c h block ctx) = ''code_block''"
  by (simp_all add: codeBlockArtifact_def blankArtifact_def)

lemma artifactRow_key:
  "a_conversationId (artifactRow L a) = a_conversationId a"
  "a_contentHash (artifactRow L a) = a_contentHash a"
  "a_type (artifactRow L a) = a_type a"
  by (simp_all add: artifactRow_def)

text \<open>One step of the loop over the tool calls: the five ways it ends.\<close>

lemma processToolCall_cases:
  fixes L c decoded kv st
  defines "r \<equiv> processToolCall L c decoded kv st"
  defines "h \<equiv> toolCallHash L (fst kv) (snd kv)"
  shows "(artifactExists (snd st) c h
            \<and> r = ((fst st\<lparr>skippedCount := skippedCount (fst st) + 1\<rparr>, snd st), True))
       \<or> (\<not> artifactExists (snd st) c h \<and> r = (st, False))
       \<or> (\<exists>ctx db1. \<not> artifactExists (snd st) c h
             \<and> storeArtifact L (toolCallArtifact L c (fst kv) (snd kv) ctx) (snd st) = Some db1
             \<and> r = ((fst st\<lparr>toolCalls := toolCalls (fst st) + 1\<rparr>, db1), True))
       \<or> (\<exists>ctx db1. \<not> artifactExists (snd st) c h \<and> truthy (tc_result (snd kv))
             \<and> storeArtifact L (toolCallArtifact L c (fst kv) (snd kv) ctx) (snd st) = Some db1
             \<and> r = ((fst st\<lparr>toolCalls := toolCalls (fst st) + 1\<rparr>, db1), False))
       \<or> (\<exists>ctx db1 db2. \<not> artifactExists (snd st) c h \<and> truthy (tc_result (snd kv))
             \<and> storeArtifact L (toolCallArtifact L c (fst kv) (snd kv) ctx) (snd st) = Some db1
             \<and> storeArtifact L (toolResultArtifact L c (fst kv) (snd kv)) db1 = Some db2
             \<and> r = ((fst st\<lparr>toolCalls := toolCalls (fst st) + 1,
                              toolResults := toolResults (fst st) + 1\<rparr>, db2), True))"
proof (cases "artifactExists (snd st) c h")
  case True
  then show ?thesis unfolding r_def h_def by (simp add: processToolCall_def Let_def)
next
  case False
  show ?thesis
  proof (cases "getPromptContext decoded (tc_lineIndex (snd kv))")
    case None
    then show ?thesis using False unfolding r_def h_def
      by (cases st) (simp add: processToolCall_def Let_def)
  next
    case (Some ctx)
    show ?thesis
    proof (cases "storeArtifact L (toolCallArtifact L c (fst kv) (snd kv) ctx) (snd st)")
      case None
      then show ?thesis using False Some unfolding r_def h_def
        by (cases st) (simp add: processToolCall_def Let_def)
    next
      case db1: (Some db1)
      show ?thesis
      proof (cases "truthy (tc_result (snd kv))
                    \<and> \<not> artifactExists db1 c (toolResultHash L (fst kv) (snd kv))")
        case no: False
        have "r = ((fst st\<lparr>toolCalls := toolCalls (fst st) + 1\<rparr>, db1), True)"
          using False Some db1 no unfolding r_def h_def
          by (auto simp: processToolCall_def Let_def)
        then show ?thesis using False db1 by blast
      next
        case yes: True
        show ?thesis
        proof (cases "storeArtifact L (toolResultArtifact L c (fst kv) (snd kv)) db1")
          case None
          have "r = ((fst st\<lparr>toolCalls := toolCalls (fst st) + 1\<rparr>, db1), False)"
            using False Some db1 yes None unfolding r_def h_def
            by (auto simp: processToolCall_def Let_def)
          then show ?thesis using False db1 yes by blast
        next
          case db2: (Some db2)
          have "r = ((fst st\<lparr>toolCalls := toolCalls (fst st) + 1,
                              toolResults := toolResults (fst st) + 1\<rparr>, db2), True)"
            using False Some db1 yes db2 unfolding r_def h_def
            by (auto simp: processToolCall_def Let_def)
          then show ?thesis using False db1 db2 yes by blast
        qed
      qed
    qed
  qed
qed

lemma processToolCall_skip:
  "artifactExists db c (toolCallHash L (fst kv) (snd kv)) \<Longrightarrow>
   processToolCall L c decoded kv (res, db) = ((res\<lparr>skippedCount := skippedCount res + 1\<rparr>, db), True)"
  by (simp add: processToolCall_def Let_def)

lemma processToolCall_rows:
  assumes "a \<in> set (artifacts (snd (fst (processToolCall L c decoded kv st))))"
  shows "a \<in> set (artifacts (snd st)) \<or> rowOfCall L c kv a"
  using processToolCall_cases[where L = L and c = c and decoded = decoded and kv = kv and st = st] assms
  by (auto simp: rowOfCall_def dest!: artifacts_storeArtifact)

lemma processToolCall_grows:
  "set (artifacts (snd st)) \<subseteq> set (artifacts (snd (fst (processToolCall L c decoded kv st))))"
  using processToolCall_cases[where L = L and c = c and decoded = decoded and kv = kv and st = st]
  by (auto dest!: artifacts_storeArtifact)

lemma processToolCall_done:
  assumes "snd (processToolCall L c decoded kv st)"
  shows "artifactExists (snd (fst (processToolCall L c decoded kv st))) c (toolCallHash L (fst kv) (snd kv))"
proof -
  have one: "\<And>ctx db1. storeArtifact L (toolCallArtifact L c (fst kv) (snd kv) ctx) (snd st) = Some db1
      \<Longrightarrow> artifactExists db1 c (toolCallHash L (fst kv) (snd kv))"
    by (simp add: artifactExists_storeArtifact toolCallArtifact_key)
  have two: "\<And>db1 db2. artifactExists db1 c (toolCallHash L (fst kv) (snd kv))
      \<Longrightarrow> storeArtifact L (toolResultArtifact L c (fst kv) (snd kv)) db1 = Some db2
      \<Longrightarrow> artifactExists db2 c (toolCallHash L (fst kv) (snd kv))"
    by (simp add: artifactExists_storeArtifact)
  from processToolCall_cases[where L = L and c = c and decoded = decoded and kv = kv and st = st]
  show ?thesis
  proof (elim disjE exE conjE)
    fix ctx db1 db2
    assume a: "storeArtifact L (toolCallArtifact L c (fst kv) (snd kv) ctx) (snd st) = Some db1"
      and b: "storeArtifact L (toolResultArtifact L c (fst kv) (snd kv)) db1 = Some db2"
      and r: "processToolCall L c decoded kv st
           = ((fst st\<lparr>toolCalls := toolCalls (fst st) + 1, toolResults := toolResults (fst st) + 1\<rparr>, db2), True)"
    have "artifactExists db2 c (toolCallHash L (fst kv) (snd kv))" using two[OF one[OF a] b] .
    then show ?thesis using r by simp
  qed (use assms one in auto)
qed

lemma processToolCall_jsonObjects:
  "jsonObjects (fst (fst (processToolCall L c decoded kv st))) = jsonObjects (fst st)"
  using processToolCall_cases[where L = L and c = c and decoded = decoded and kv = kv and st = st] by auto

lemma processToolCall_frame:
  "conversations (snd (fst (processToolCall L c decoded kv st))) = conversations (snd st)
   \<and> conversation_entries (snd (fst (processToolCall L c decoded kv st))) = conversation_entries (snd st)"
  using processToolCall_cases[where L = L and c = c and decoded = decoded and kv = kv and st = st]
  by (auto dest!: storeArtifact_frame)

text \<open>One step of the loop over the code blocks of a line: the three ways it ends.\<close>

lemma storeCodeBlock_cases:
  fixes L c decoded i block st
  defines "r \<equiv> storeCodeBlock L c decoded i block st"
  defines "h \<equiv> sha256 L (cb_content block)"
  shows "(artifactExists (snd st) c h
            \<and> r = ((fst st\<lparr>skippedCount := skippedCount (fst st) + 1\<rparr>, snd st), True))
       \<or> (\<not> artifactExists (snd st) c h \<and> r = (st, False))
       \<or> (\<exists>ctx db1. \<not> artifactExists (snd st) c h
             \<and> storeArtifact L (codeBlockArtifact c h block ctx) (snd st) = Some db1
             \<and> r = ((fst st\<lparr>codeBlocks := codeBlocks (fst st) + 1\<rparr>, db1), True))"
  unfolding r_def h_def
  by (cases st) (auto simp: storeCodeBlock_def Let_def split: option.splits)

lemma storeCodeBlock_skip:
  "artifactExists db c (sha256 L (cb_content block)) \<Longrightarrow>
   storeCodeBlock L c decoded i block (res, db) = ((res\<lparr>skippedCount := skippedCount res + 1\<rparr>, db), True)"
  by (simp add: storeCodeBlock_def Let_def)

lemma storeCodeBlock_rows:
  assumes "a \<in> set (artifacts (snd (fst (storeCodeBlock L c decoded i block st))))"
  shows "a \<in> set (artifacts (snd st)) \<or> a_type a = ''code_block''"
  using storeCodeBlock_cases[where L = L and c = c and decoded = decoded and i = i and block = block and st = st] assms
  by (auto simp: artifactRow_key codeBlockArtifact_key dest!: artifacts_storeArtifact)

lemma storeCodeBlock_grows:
  "set (artifacts (snd st)) \<subseteq> set (artifacts (snd (fst (storeCodeBlock L c decoded i block st))))"
  using storeCodeBlock_cases[where L = L and c = c and decoded = decoded and i = i and block = block and st = st]
  by (auto dest!: artifacts_storeArtifact)

lemma storeCodeBlock_done:
  assumes "snd (storeCodeBlock L c decoded i block st)"
  shows "artifactExists (snd (fst (storeCodeBlock L c decoded i block st))) c (sha256 L (cb_content block))"
proof -
  have one: "\<And>ctx db1. storeArtifact L (codeBlockArtifact c (sha256 L (cb_content block)) block ctx) (snd st) = Some db1
      \<Longrightarrow> artifactExists db1 c (sha256 L (cb_content block))"
    by (simp add: artifactExists_storeArtifact codeBlockArtifact_key)
  show ?thesis
    using storeCodeBlock_cases[where L = L and c = c and decoded = decoded and i = i and block = block and st = st] assms one
    by auto
qed

lemma storeCodeBlock_jsonObjects:
  "jsonObjects (fst (fst (storeCodeBlock L c decoded i block st))) = jsonObjects (fst st)"
  using storeCodeBlock_cases[where L = L and c = c and decoded = decoded and i = i and block = block and st = st] by auto

lemma storeCodeBlock_frame:
  "conversations (snd (fst (storeCodeBlock L c decoded i block st))) = conversations (snd st)
   \<and> conversation_entries (snd (fst (storeCodeBlock L c decoded i block st))) = conversation_entries (snd st)"
  using storeCodeBlock_cases[where L = L and c = c and decoded = decoded and i = i and block = block and st = st]
  by (auto dest!: storeArtifact_frame)

text \<open>Iteration: rows added, rows kept, work done, counters.\<close>

lemma loop_rows:
  assumes "\<forall>x st a. a \<in> set (artifacts (snd (fst (body x st)))) \<longrightarrow>
             a \<in> set (artifacts (snd st)) \<or> Q x a"
  shows "a \<in> set (artifacts (snd (fst (loopUntilThrow body xs st)))) \<Longrightarrow>
         a \<in> set (artifacts (snd st)) \<or> (\<exists>x\<in>set xs. Q x a)"
proof (induction xs arbitrary: st)
  case Nil
  then show ?case by simp
next
  case (Cons x xs)
  have step: "\<And>a. a \<in> set (artifacts (snd (fst (body x st)))) \<Longrightarrow> a \<in> set (artifacts (snd st)) \<or> Q x a"
    using assms by blast
  show ?case
  proof (cases "snd (body x st)")
    case True
    then have "a \<in> set (artifacts (snd (fst (loopUntilThrow body xs (fst (body x st))))))"
      using Cons.prems(1) by simp
    then have "a \<in> set (artifacts (snd (fst (body x st)))) \<or> (\<exists>y\<in>set xs. Q y a)"
      using Cons.IH[of "fst (body x st)"] by simp
    then show ?thesis using step by auto
  next
    case False
    then show ?thesis using Cons.prems(1) step by auto
  qed
qed

lemma loop_grows:
  assumes "\<And>x st. set (artifacts (snd st)) \<subseteq> set (artifacts (snd (fst (body x st))))"
  shows "set (artifacts (snd st)) \<subseteq> set (artifacts (snd (fst (loopUntilThrow body xs st))))"
proof (induction xs arbitrary: st)
  case Nil
  then show ?case by simp
next
  case (Cons x xs)
  show ?case
    using assms[of st x] Cons.IH[of "fst (body x st)"] by (auto simp: subset_iff)
qed

lemma loop_done:
  assumes grows: "\<And>x st. set (artifacts (snd st)) \<subseteq> set (artifacts (snd (fst (body x st))))"
    and fin: "\<And>x st. snd (body x st) \<Longrightarrow> artifactExists (snd (fst (body x st))) c (key x)"
  shows "snd (loopUntilThrow body xs st) \<Longrightarrow>
         \<forall>x\<in>set xs. artifactExists (snd (fst (loopUntilThrow body xs st))) c (key x)"
proof (induction xs arbitrary: st)
  case Nil
  then show ?case by simp
next
  case (Cons x xs)
  have ok: "snd (body x st)" using Cons.prems by (auto split: if_splits)
  then have rest: "snd (loopUntilThrow body xs (fst (body x st)))" using Cons.prems by simp
  have "artifactExists (snd (fst (body x st))) c (key x)" using ok by (rule fin)
  then have "artifactExists (snd (fst (loopUntilThrow body xs (fst (body x st))))) c (key x)"
    using loop_grows[where body = body and st = "fst (body x st)" and xs = xs, OF grows]
      artifactExists_mono by blast
  then show ?case using ok Cons.IH[OF rest] by simp
qed

lemma loop_counter:
  assumes "\<And>x st. f (fst (fst (body x st))) = f (fst st)"
  shows "f (fst (fst (loopUntilThrow body xs st))) = f (fst st)"
proof (induction xs arbitrary: st)
  case Nil
  then show ?case by simp
next
  case (Cons x xs)
  show ?case using assms[of x st] Cons.IH[of "fst (body x st)"] by simp
qed

lemma loop_all_skipped:
  assumes "\<And>x res. x \<in> set xs \<Longrightarrow> body x (res, db) = ((res\<lparr>skippedCount := skippedCount res + 1\<rparr>, db), True)"
  shows "loopUntilThrow body xs (res, db) = ((res\<lparr>skippedCount := skippedCount res + length xs\<rparr>, db), True)"
  using assms
proof (induction xs arbitrary: res)
  case Nil
  then show ?case by simp
next
  case (Cons x xs)
  have "body x (res, db) = ((res\<lparr>skippedCount := skippedCount res + 1\<rparr>, db), True)"
    using Cons.prems[of x res] by simp
  moreover have "loopUntilThrow body xs (res\<lparr>skippedCount := skippedCount res + 1\<rparr>, db)
        = ((res\<lparr>skippedCount := skippedCount res + 1, skippedCount := skippedCount res + 1 + length xs\<rparr>, db), True)"
    using Cons.IH[of "res\<lparr>skippedCount := skippedCount res + 1\<rparr>"] Cons.prems by simp
  ultimately show ?case by simp
qed

text \<open>The scan of one line for code blocks.\<close>

lemma scanEntry_rows:
  "a \<in> set (artifacts (snd (fst (scanEntry L c decoded ie st)))) \<Longrightarrow>
   a \<in> set (artifacts (snd st)) \<or> a_type a = ''code_block''"
proof -
  assume a: "a \<in> set (artifacts (snd (fst (scanEntry L c decoded ie st))))"
  show ?thesis
  proof (cases "assistantText L (snd ie)")
    case None
    then show ?thesis using a by (simp add: scanEntry_def)
  next
    case (Some t)
    show ?thesis
    proof (cases t)
      case None
      then show ?thesis using a Some by (simp add: scanEntry_def)
    next
      case inner: (Some textContent)
      have step: "\<forall>x st a. a \<in> set (artifacts (snd (fst (storeCodeBlock L c decoded (fst ie) x st)))) \<longrightarrow>
            a \<in> set (artifacts (snd st)) \<or> a_type a = ''code_block''"
        using storeCodeBlock_rows by blast
      have "a \<in> set (artifacts (snd st))
            \<or> (\<exists>x\<in>set (extractCodeBlocks textContent). a_type a = ''code_block'')"
        using a Some inner
          loop_rows[where body = "storeCodeBlock L c decoded (fst ie)"
            and Q = "\<lambda>x a. a_type a = ''code_block''" and st = st and a = a
            and xs = "extractCodeBlocks textContent", OF step]
        by (simp add: scanEntry_def)
      then show ?thesis by auto
    qed
  qed
qed

lemma scanEntry_grows:
  "set (artifacts (snd st)) \<subseteq> set (artifacts (snd (fst (scanEntry L c decoded ie st))))"
  using loop_grows[where body = "storeCodeBlock L c decoded (fst ie)" and st = st,
      OF storeCodeBlock_grows]
  by (auto simp: scanEntry_def split: option.splits)

lemma scanEntry_jsonObjects:
  "jsonObjects (fst (fst (scanEntry L c decoded ie st))) = jsonObjects (fst st)"
  using loop_counter[where f = jsonObjects and body = "storeCodeBlock L c decoded (fst ie)"
      and st = st, OF storeCodeBlock_jsonObjects]
  by (auto simp: scanEntry_def split: option.splits)

lemma processJSONLFile_rows:
  assumes "a \<in> set (artifacts (snd (processJSONLFile L fs filePath c db)))"
  shows "a \<in> set (artifacts db) \<or> (\<exists>kv\<in>set (toolCallsOf L fs filePath). rowOfCall L c kv a)
         \<or> a_type a = ''code_block''"
proof (cases "fs filePath")
  case None
  then show ?thesis using assms by (simp add: processJSONLFile_def)
next
  case (Some content)
  let ?lines = "nonEmptyLines content"
  let ?calls = "loopUntilThrow (processToolCall L c (decodeAll L ?lines)) (firstPass L 0 ?lines [])
                  (noResults, db)"
  let ?blocks = "loopUntilThrow (scanEntry L c (decodeAll L ?lines)) (enumerate 0 (decodeAll L ?lines))
                   (fst ?calls)"
  have step1: "\<forall>x st a. a \<in> set (artifacts (snd (fst (processToolCall L c (decodeAll L ?lines) x st)))) \<longrightarrow>
        a \<in> set (artifacts (snd st)) \<or> rowOfCall L c x a"
    using processToolCall_rows by blast
  have calls: "\<And>a. a \<in> set (artifacts (snd (fst ?calls))) \<Longrightarrow>
        a \<in> set (artifacts db) \<or> (\<exists>kv\<in>set (toolCallsOf L fs filePath). rowOfCall L c kv a)"
    using loop_rows[where body = "processToolCall L c (decodeAll L ?lines)" and Q = "rowOfCall L c"
        and st = "(noResults, db)" and xs = "firstPass L 0 ?lines []", OF step1] Some
    by (simp add: toolCallsOf_def)
  have step: "\<forall>x st a. a \<in> set (artifacts (snd (fst (scanEntry L c (decodeAll L ?lines) x st)))) \<longrightarrow>
        a \<in> set (artifacts (snd st)) \<or> a_type a = ''code_block''"
    using scanEntry_rows by blast
  have blocks: "\<And>a. a \<in> set (artifacts (snd (fst ?blocks))) \<Longrightarrow>
        a \<in> set (artifacts (snd (fst ?calls))) \<or> a_type a = ''code_block''"
    using loop_rows[where body = "scanEntry L c (decodeAll L ?lines)"
        and Q = "\<lambda>x a. a_type a = ''code_block''" and st = "fst ?calls"
        and xs = "enumerate 0 (decodeAll L ?lines)", OF step]
    by blast
  have "a \<in> set (artifacts (snd (fst ?calls))) \<or> a \<in> set (artifacts (snd (fst ?blocks)))"
    using assms Some by (auto simp: processJSONLFile_def Let_def split: if_splits)
  then show ?thesis using calls blocks by blast
qed

text \<open>The tiering of the rows of a tool call.\<close>

lemma outputStr_nonempty:
  "\<forall>v. json_stringify L v \<noteq> [] \<Longrightarrow> truthy payload \<Longrightarrow> outputStr L payload \<noteq> []"
  by (cases payload) (auto simp: outputStr_def jsonStringify_def)

lemma outputStr_value:
  "outputStr L (JStr x) = x"
  "\<not> isString payload \<Longrightarrow> payload \<noteq> JUndef \<Longrightarrow> outputStr L payload = json_stringify L payload"
  by (simp_all add: outputStr_def jsonStringify_def)

lemma processOutput_size:
  "o_size (processOutput L payload e) = (if truthy payload then length (outputStr L payload) else 0)"
  by (simp add: processOutput_def Let_def)

lemma stored_outputs:
  assumes ne: "\<forall>v. json_stringify L v \<noteq> []"
  shows "asText L (orElse (o_summary (processOutput L payload e)) JNull)
           = (if truthy payload then JStr (take 500 (outputStr L payload)) else JNull)"
    and "asText L (orElse (o_full (processOutput L payload e)) JNull)
           = (if truthy payload \<and> (e \<or> length (outputStr L payload) \<le> 10240)
              then JStr (outputStr L payload) else JNull)"
    and "asInteger L (orElse (JNum (int (o_size (processOutput L payload e)))) JNull)
           = (if truthy payload then JNum (int (length (outputStr L payload))) else JNull)"
    and "(if truthy (JBool (o_truncated (processOutput L payload e))) then JNum 1 else JNum 0)
           = (if truthy payload \<and> \<not> e \<and> 10240 < length (outputStr L payload) then JNum 1 else JNum 0)"
proof -
  have s: "truthy payload \<longrightarrow> outputStr L payload \<noteq> []"
    using ne outputStr_nonempty by blast
  show "asText L (orElse (o_summary (processOutput L payload e)) JNull)
           = (if truthy payload then JStr (take 500 (outputStr L payload)) else JNull)"
    using s by (auto simp: processOutput_def Let_def orElse_def asText_def sliceTo_def SUMMARY_LENGTH_def)
  show "asText L (orElse (o_full (processOutput L payload e)) JNull)
           = (if truthy payload \<and> (e \<or> length (outputStr L payload) \<le> 10240)
              then JStr (outputStr L payload) else JNull)"
    using s by (auto simp: processOutput_def Let_def orElse_def asText_def MAX_OUTPUT_SIZE_def)
  show "asInteger L (orElse (JNum (int (o_size (processOutput L payload e)))) JNull)
           = (if truthy payload then JNum (int (length (outputStr L payload))) else JNull)"
    using s by (auto simp: processOutput_def Let_def orElse_def asInteger_def)
  show "(if truthy (JBool (o_truncated (processOutput L payload e))) then JNum 1 else JNum 0)
           = (if truthy payload \<and> \<not> e \<and> 10240 < length (outputStr L payload) then JNum 1 else JNum 0)"
    by (simp add: processOutput_def Let_def MAX_OUTPUT_SIZE_def)
qed

lemma toolCallRow_fields:
  fixes L c toolId call ctx
  defines "a \<equiv> artifactRow L (toolCallArtifact L c toolId call ctx)"
  shows "a_type a = ''tool_call''"
    "a_contentHash a = toolCallHash L toolId call"
    "a_outcome a = (if callIsError call then JStr ''error''
                    else if truthy (tc_result call) then JStr ''success'' else JStr ''pending'')"
    "a_outputSummary a = asText L (orElse (o_summary (processOutput L (tc_result call) (callIsError call))) JNull)"
    "a_outputFull a = asText L (orElse (o_full (processOutput L (tc_result call) (callIsError call))) JNull)"
    "a_outputSizeBytes a
       = asInteger L (orElse (JNum (int (o_size (processOutput L (tc_result call) (callIsError call))))) JNull)"
    "a_outputTruncated a = (if truthy (JBool (o_truncated (processOutput L (tc_result call) (callIsError call))))
                            then JNum 1 else JNum 0)"
  by (simp_all add: a_def artifactRow_def toolCallArtifact_def blankArtifact_def Let_def orElse_def asText_def)

lemma toolResultRow_fields:
  fixes L c toolId call
  defines "a \<equiv> artifactRow L (toolResultArtifact L c toolId call)"
  shows "a_type a = ''tool_result''"
    "a_contentHash a = toolResultHash L toolId call"
    "a_outcome a = (if callIsError call then JStr ''error'' else JStr ''success'')"
    "a_outputSummary a = asText L (orElse (o_summary (processOutput L (tc_result call) (callIsError call))) JNull)"
    "a_outputFull a = asText L (orElse (o_full (processOutput L (tc_result call) (callIsError call))) JNull)"
    "a_outputSizeBytes a
       = asInteger L (orElse (JNum (int (o_size (processOutput L (tc_result call) (callIsError call))))) JNull)"
    "a_outputTruncated a = (if truthy (JBool (o_truncated (processOutput L (tc_result call) (callIsError call))))
                            then JNum 1 else JNum 0)"
  by (simp_all add: a_def artifactRow_def toolResultArtifact_def blankArtifact_def Let_def orElse_def asText_def)

lemma rowOfCall_tiering:
  assumes ne: "\<forall>v. json_stringify L v \<noteq> []"
    and row: "rowOfCall L c (toolId, call) a"
  shows "((a_outcome a = JStr ''error'') = callIsError call)
     \<and> a_outputSummary a
         = (if truthy (tc_result call) then JStr (take 500 (outputStr L (tc_result call))) else JNull)
     \<and> a_outputFull a
         = (if truthy (tc_result call) \<and> (callIsError call \<or> length (outputStr L (tc_result call)) \<le> 10240)
            then JStr (outputStr L (tc_result call)) else JNull)
     \<and> a_outputSizeBytes a
         = (if truthy (tc_result call) then JNum (int (length (outputStr L (tc_result call)))) else JNull)
     \<and> a_outputTruncated a
         = (if truthy (tc_result call) \<and> \<not> callIsError call \<and> 10240 < length (outputStr L (tc_result call))
            then JNum 1 else JNum 0)
     \<and> (a_type a = ''tool_result'' \<longrightarrow> truthy (tc_result call))"
proof -
  note out = stored_outputs[OF ne, of "tc_result call" "callIsError call"]
  consider (invocation) ctx where "a = artifactRow L (toolCallArtifact L c toolId call ctx)"
    | (result) "truthy (tc_result call)" "a = artifactRow L (toolResultArtifact L c toolId call)"
    using row by (auto simp: rowOfCall_def)
  then show ?thesis
  proof cases
    case invocation
    show ?thesis
      unfolding invocation
      by (simp only: toolCallRow_fields[of L c toolId call ctx] out) simp
  next
    case result
    show ?thesis
      unfolding result(2)
      using result(1) by (simp only: toolResultRow_fields[of L c toolId call] out) simp
  qed
qed

text \<open>
  Claim C2, as amended. Every \<^verbatim>\<open>tool_call\<close> or \<^verbatim>\<open>tool_result\<close> row that
  \<^verbatim>\<open>processJSONLFile\<close> adds belongs to a tool call of the file, the outcome of the
  row is error exactly when the error flag of the call is \<^verbatim>\<open>true\<close>, and its four
  output columns are those of the result payload of the call. With a truthy payload,
  measured as a string (itself when it is one, its serialisation otherwise): the summary
  is its first 500 characters, the size is its length, the full output is the whole
  payload when the outcome is error or the size is at most 10240, and is absent
  otherwise, and the truncation flag is set exactly when the full output is absent. So
  the full output is absent with the truncation flag set exactly when the measured size
  exceeds 10240 and the outcome is not error. With a falsy payload (none, or the empty
  string) summary, full output and size are absent and the flag is not set, also when
  the outcome is error. (\<^verbatim>\<open>JSON.stringify\<close> never gives the empty string.)
\<close>

theorem tiering_of_stored_tool_artifacts:
  assumes "\<forall>v. json_stringify L v \<noteq> []"
    and "a \<in> set (artifacts (snd (processJSONLFile L fs filePath conversationId db)))"
    and "a \<notin> set (artifacts db)"
    and "a_type a = ''tool_call'' \<or> a_type a = ''tool_result''"
  shows "\<exists>toolId call payload measured.
       (toolId, call) \<in> set (toolCallsOf L fs filePath)
     \<and> payload = tc_result call
     \<and> measured = (case payload of JStr x \<Rightarrow> x | _ \<Rightarrow> json_stringify L payload)
     \<and> ((a_outcome a = JStr ''error'') = (tc_isError call = JBool True))
     \<and> (truthy payload \<longrightarrow>
            a_outputSummary a = JStr (take 500 measured)
          \<and> a_outputSizeBytes a = JNum (int (length measured))
          \<and> a_outputFull a = (if a_outcome a = JStr ''error'' \<or> length measured \<le> 10240
                               then JStr measured else JNull)
          \<and> a_outputTruncated a = (if a_outcome a \<noteq> JStr ''error'' \<and> 10240 < length measured
                                    then JNum 1 else JNum 0))
     \<and> (\<not> truthy payload \<longrightarrow>
            a_outputSummary a = JNull \<and> a_outputSizeBytes a = JNull
          \<and> a_outputFull a = JNull \<and> a_outputTruncated a = JNum 0)
     \<and> ((a_outputFull a = JNull \<and> a_outputTruncated a = JNum 1)
          = (10240 < o_size (processOutput L payload (tc_isError call = JBool True))
             \<and> a_outcome a \<noteq> JStr ''error''))
     \<and> o_size (processOutput L payload (tc_isError call = JBool True))
          = (if truthy payload then length measured else 0)
     \<and> (a_type a = ''tool_result'' \<longrightarrow> truthy payload)"
proof -
  have "a_type a \<noteq> ''code_block''" using assms(4) by auto
  then obtain toolId call where
    kv: "(toolId, call) \<in> set (toolCallsOf L fs filePath)" and row: "rowOfCall L conversationId (toolId, call) a"
    using processJSONLFile_rows[OF assms(2)] assms(3) by auto
  let ?p = "tc_result call"
  let ?m = "case ?p of JStr x \<Rightarrow> x | _ \<Rightarrow> json_stringify L ?p"
  have m: "truthy ?p \<Longrightarrow> outputStr L ?p = ?m"
    by (cases ?p) (simp_all add: outputStr_value)
  have e: "callIsError call = (tc_isError call = JBool True)" by (simp add: callIsError_def)
  note t = rowOfCall_tiering[OF assms(1) row]
  have sz: "o_size (processOutput L ?p (tc_isError call = JBool True)) = (if truthy ?p then length ?m else 0)"
    using m by (simp add: processOutput_size)
  have oc: "(a_outcome a = JStr ''error'') = (tc_isError call = JBool True)" using t e by simp
  have yes: "truthy ?p \<longrightarrow>
            a_outputSummary a = JStr (take 500 ?m)
          \<and> a_outputSizeBytes a = JNum (int (length ?m))
          \<and> a_outputFull a = (if a_outcome a = JStr ''error'' \<or> length ?m \<le> 10240 then JStr ?m else JNull)
          \<and> a_outputTruncated a = (if a_outcome a \<noteq> JStr ''error'' \<and> 10240 < length ?m then JNum 1 else JNum 0)"
    using t m e oc by simp
  have no: "\<not> truthy ?p \<longrightarrow>
            a_outputSummary a = JNull \<and> a_outputSizeBytes a = JNull
          \<and> a_outputFull a = JNull \<and> a_outputTruncated a = JNum 0"
    using t by simp
  have iff: "(a_outputFull a = JNull \<and> a_outputTruncated a = JNum 1)
          = (10240 < o_size (processOutput L ?p (tc_isError call = JBool True))
             \<and> a_outcome a \<noteq> JStr ''error'')"
  proof (cases "truthy ?p")
    case True
    then show ?thesis using yes sz by auto
  next
    case False
    then show ?thesis using no sz by simp
  qed
  have res: "a_type a = ''tool_result'' \<longrightarrow> truthy ?p" using t by simp
  show ?thesis using kv oc yes no iff sz res by blast
qed

lemma showNat_nonempty: "showNat n \<noteq> []"
  by (subst showNat.simps) simp

lemma showJs_nonempty: "showJs v \<noteq> []"
  by (cases v) (simp_all add: dq_def showNat_nonempty)

text \<open>
  A failed call with a payload keeps the whole payload; a successful call with a small
  payload keeps it too, with its size. A payload of 10241 characters is kept in full
  under the error flag, and as a summary of 500 characters without it.
\<close>

theorem tiering_of_stored_tool_artifacts_witness:
  "failedRow \<in> set (artifacts (snd (processJSONLFile testLib failedLog ''log.jsonl'' 1 emptyStore)))
   \<and> failedRow \<notin> set (artifacts emptyStore)
   \<and> a_type failedRow = ''tool_call''
   \<and> a_outcome failedRow = JStr ''error''
   \<and> a_outputFull failedRow = JStr ''Permission denied: file not found''
   \<and> a_outputSummary failedRow = JStr ''Permission denied: file not found''
   \<and> a_outputSizeBytes failedRow = JNum 33
   \<and> a_outputTruncated failedRow = JNum 0
   \<and> (\<exists>toolId call. (toolId, call) \<in> set (toolCallsOf testLib failedLog ''log.jsonl'')
        \<and> tc_isError call = JBool True
        \<and> (truthy (tc_result call) \<longrightarrow>
              a_outputSizeBytes failedRow
                = JNum (int (length (case tc_result call of JStr x \<Rightarrow> x | _ \<Rightarrow> json_stringify testLib (tc_result call))))))
   \<and> map a_outputFull (artifacts okStore) = [JStr ''hello'', JStr ''hello'']
   \<and> map a_outputSizeBytes (artifacts okStore) = [JNum 5, JNum 5]
   \<and> map a_outputTruncated (artifacts okStore) = [JNum 0, JNum 0]
   \<and> processOutput testLib (JStr (replicate 10241 (CHR ''x''))) True
       = \<lparr>o_summary = JStr (replicate 500 (CHR ''x'')), o_full = JStr (replicate 10241 (CHR ''x'')),
          o_size = 10241, o_truncated = False\<rparr>
   \<and> processOutput testLib (JStr (replicate 10241 (CHR ''x''))) False
       = \<lparr>o_summary = JStr (replicate 500 (CHR ''x'')), o_full = JNull,
          o_size = 10241, o_truncated = True\<rparr>"
proof -
  have ne: "\<forall>v. json_stringify testLib v \<noteq> []" by (simp add: testLib_def showJs_nonempty)
  have rows: "map a_type (artifacts (snd (processJSONLFile testLib failedLog ''log.jsonl'' 1 emptyStore)))
                = [''tool_call'', ''tool_result'']"
    by code_simp
  then have "artifacts (snd (processJSONLFile testLib failedLog ''log.jsonl'' 1 emptyStore)) \<noteq> []" by auto
  then have i: "failedRow \<in> set (artifacts (snd (processJSONLFile testLib failedLog ''log.jsonl'' 1 emptyStore)))"
    by (simp add: failedRow_def)
  have n: "failedRow \<notin> set (artifacts emptyStore)" by (simp add: emptyStore_def)
  have fields: "(a_type failedRow, a_outcome failedRow, a_outputFull failedRow, a_outputSummary failedRow,
                 a_outputSizeBytes failedRow, a_outputTruncated failedRow)
        = (''tool_call'', JStr ''error'', JStr ''Permission denied: file not found'',
           JStr ''Permission denied: file not found'', JNum 33, JNum 0)"
    by code_simp
  have ty: "a_type failedRow = ''tool_call''" using fields by simp
  have oc: "a_outcome failedRow = JStr ''error''" using fields by simp
  have "\<exists>toolId call. (toolId, call) \<in> set (toolCallsOf testLib failedLog ''log.jsonl'')
        \<and> tc_isError call = JBool True
        \<and> (truthy (tc_result call) \<longrightarrow>
              a_outputSizeBytes failedRow
                = JNum (int (length (case tc_result call of JStr x \<Rightarrow> x | _ \<Rightarrow> json_stringify testLib (tc_result call)))))"
    using tiering_of_stored_tool_artifacts[OF ne i n] ty oc by blast
  moreover have ok: "(map a_outputFull (artifacts okStore), map a_outputSizeBytes (artifacts okStore),
                      map a_outputTruncated (artifacts okStore))
        = ([JStr ''hello'', JStr ''hello''], [JNum 5, JNum 5], [JNum 0, JNum 0])"
    by code_simp
  moreover have big: "replicate 10241 (CHR ''x'') \<noteq> []"
    using length_replicate[of 10241 "CHR ''x''"] by (metis length_0_conv zero_neq_numeral)
  have "processOutput testLib (JStr (replicate 10241 (CHR ''x''))) True
       = \<lparr>o_summary = JStr (replicate 500 (CHR ''x'')), o_full = JStr (replicate 10241 (CHR ''x'')),
          o_size = 10241, o_truncated = False\<rparr>"
    using big
    by (simp add: processOutput_def outputStr_def sliceTo_def SUMMARY_LENGTH_def Let_def)
  moreover have "processOutput testLib (JStr (replicate 10241 (CHR ''x''))) False
       = \<lparr>o_summary = JStr (replicate 500 (CHR ''x'')), o_full = JNull,
          o_size = 10241, o_truncated = True\<rparr>"
    using big
    by (simp add: processOutput_def outputStr_def sliceTo_def SUMMARY_LENGTH_def MAX_OUTPUT_SIZE_def Let_def)
  ultimately show ?thesis using i n fields by simp
qed

text \<open>
  The claim as stated fails where the result carries the error flag and an empty
  payload: the outcome is error and there is no full output.
\<close>

theorem error_without_payload_has_no_full_output:
  "(map a_type (artifacts (snd (processJSONLFile testLib failedEmptyLog ''log.jsonl'' 1 emptyStore))),
    map a_outcome (artifacts (snd (processJSONLFile testLib failedEmptyLog ''log.jsonl'' 1 emptyStore))),
    map a_outputFull (artifacts (snd (processJSONLFile testLib failedEmptyLog ''log.jsonl'' 1 emptyStore))))
   = ([''tool_call''], [JStr ''error''], [JNull])"
  by code_simp

section \<open>Extraction: a second run over the same source\<close>

lemma loop_keys:
  assumes grows: "\<And>x st. set (artifacts (snd st)) \<subseteq> set (artifacts (snd (fst (body x st))))"
    and fin: "\<And>x st k. snd (body x st) \<Longrightarrow> k \<in> keys x \<Longrightarrow> artifactExists (snd (fst (body x st))) c k"
  shows "snd (loopUntilThrow body xs st) \<Longrightarrow>
         \<forall>x\<in>set xs. \<forall>k\<in>keys x. artifactExists (snd (fst (loopUntilThrow body xs st))) c k"
proof (induction xs arbitrary: st)
  case Nil
  then show ?case by simp
next
  case (Cons x xs)
  have ok: "snd (body x st)" using Cons.prems by (auto split: if_splits)
  then have rest: "snd (loopUntilThrow body xs (fst (body x st)))" using Cons.prems by simp
  have "\<forall>k\<in>keys x. artifactExists (snd (fst (body x st))) c k" using ok fin by blast
  then have "\<forall>k\<in>keys x. artifactExists (snd (fst (loopUntilThrow body xs (fst (body x st))))) c k"
    using loop_grows[where body = body and st = "fst (body x st)" and xs = xs, OF grows]
      artifactExists_mono by blast
  then show ?case using ok Cons.IH[OF rest] by simp
qed

lemma loop_ok:
  assumes "\<And>x st. snd (body x st) \<Longrightarrow> P x"
  shows "snd (loopUntilThrow body xs st) \<Longrightarrow> \<forall>x\<in>set xs. P x"
proof (induction xs arbitrary: st)
  case Nil
  then show ?case by simp
next
  case (Cons x xs)
  have ok: "snd (body x st)" using Cons.prems by (auto split: if_splits)
  then have rest: "snd (loopUntilThrow body xs (fst (body x st)))" using Cons.prems by simp
  show ?case using assms[OF ok] Cons.IH[OF rest] by simp
qed

lemma loop_invariant:
  assumes "\<And>x st. I st \<Longrightarrow> I (fst (body x st))"
  shows "I st \<Longrightarrow> I (fst (loopUntilThrow body xs st))"
proof (induction xs arbitrary: st)
  case Nil
  then show ?case by simp
next
  case (Cons x xs)
  show ?case using assms[OF Cons.prems, of x] Cons.IH[of "fst (body x st)"] by simp
qed

lemma loop_skipping:
  assumes "\<And>x res. x \<in> set xs \<Longrightarrow>
             body x (res, db) = ((res\<lparr>skippedCount := skippedCount res + n x\<rparr>, db), True)"
  shows "loopUntilThrow body xs (res, db)
         = ((res\<lparr>skippedCount := skippedCount res + sum_list (map n xs)\<rparr>, db), True)"
  using assms
proof (induction xs arbitrary: res)
  case Nil
  then show ?case by simp
next
  case (Cons x xs)
  have first: "body x (res, db) = ((res\<lparr>skippedCount := skippedCount res + n x\<rparr>, db), True)"
    using Cons.prems[of x res] by simp
  have rest: "loopUntilThrow body xs (res\<lparr>skippedCount := skippedCount res + n x\<rparr>, db)
        = ((res\<lparr>skippedCount := skippedCount res + n x + sum_list (map n xs)\<rparr>, db), True)"
    using Cons.IH[of "res\<lparr>skippedCount := skippedCount res + n x\<rparr>"] Cons.prems by simp
  show ?case using first rest by (simp add: add.assoc)
qed

lemma scanEntry_text: "snd (scanEntry L c decoded ie st) \<Longrightarrow> assistantText L (snd ie) \<noteq> None"
  by (cases "assistantText L (snd ie)") (auto simp: scanEntry_def)

lemma scanEntry_done:
  assumes "snd (scanEntry L c decoded ie st)" "k \<in> (\<lambda>b. sha256 L (cb_content b)) ` set (entryBlocks L (snd ie))"
  shows "artifactExists (snd (fst (scanEntry L c decoded ie st))) c k"
proof -
  have "\<exists>textContent. assistantText L (snd ie) = Some (Some textContent)
          \<and> k \<in> (\<lambda>b. sha256 L (cb_content b)) ` set (extractCodeBlocks textContent)"
  proof (cases "assistantText L (snd ie)")
    case None
    then show ?thesis using assms(2) by (simp add: entryBlocks_def)
  next
    case (Some t)
    then show ?thesis using assms(2) by (cases t) (simp_all add: entryBlocks_def)
  qed
  then obtain textContent where t: "assistantText L (snd ie) = Some (Some textContent)"
    and k: "k \<in> (\<lambda>b. sha256 L (cb_content b)) ` set (extractCodeBlocks textContent)"
    by blast
  have eq: "scanEntry L c decoded ie st
            = loopUntilThrow (storeCodeBlock L c decoded (fst ie)) (extractCodeBlocks textContent) st"
    using t by (simp add: scanEntry_def)
  have "\<forall>b\<in>set (extractCodeBlocks textContent). \<forall>k\<in>{sha256 L (cb_content b)}.
          artifactExists (snd (fst (loopUntilThrow (storeCodeBlock L c decoded (fst ie))
                                      (extractCodeBlocks textContent) st))) c k"
  proof (rule loop_keys)
    show "\<And>x st. set (artifacts (snd st)) \<subseteq> set (artifacts (snd (fst (storeCodeBlock L c decoded (fst ie) x st))))"
      by (rule storeCodeBlock_grows)
    show "\<And>x st k. snd (storeCodeBlock L c decoded (fst ie) x st) \<Longrightarrow> k \<in> {sha256 L (cb_content x)} \<Longrightarrow>
            artifactExists (snd (fst (storeCodeBlock L c decoded (fst ie) x st))) c k"
      using storeCodeBlock_done by auto
    show "snd (loopUntilThrow (storeCodeBlock L c decoded (fst ie)) (extractCodeBlocks textContent) st)"
      using assms(1) eq by simp
  qed
  then show ?thesis using k eq by auto
qed

lemma scanEntry_skip:
  assumes "assistantText L (snd ie) \<noteq> None"
    and "\<forall>b\<in>set (entryBlocks L (snd ie)). artifactExists db c (sha256 L (cb_content b))"
  shows "scanEntry L c decoded ie (res, db)
         = ((res\<lparr>skippedCount := skippedCount res + length (entryBlocks L (snd ie))\<rparr>, db), True)"
proof -
  obtain t where t: "assistantText L (snd ie) = Some t" using assms(1) by auto
  show ?thesis
  proof (cases t)
    case None
    then show ?thesis using t by (simp add: scanEntry_def entryBlocks_def)
  next
    case (Some textContent)
    have blocks: "entryBlocks L (snd ie) = extractCodeBlocks textContent"
      using t Some by (simp add: entryBlocks_def)
    have "loopUntilThrow (storeCodeBlock L c decoded (fst ie)) (extractCodeBlocks textContent) (res, db)
          = ((res\<lparr>skippedCount := skippedCount res
                  + sum_list (map (\<lambda>b. 1) (extractCodeBlocks textContent))\<rparr>, db), True)"
    proof (rule loop_skipping)
      fix x r
      assume "x \<in> set (extractCodeBlocks textContent)"
      then have "artifactExists db c (sha256 L (cb_content x))" using assms(2) blocks by simp
      then show "storeCodeBlock L c decoded (fst ie) x (r, db)
                 = ((r\<lparr>skippedCount := skippedCount r + 1\<rparr>, db), True)"
        by (rule storeCodeBlock_skip)
    qed
    then show ?thesis using t Some blocks by (simp add: scanEntry_def sum_list_triv)
  qed
qed

lemma processToolCall_inserted:
  "length (artifacts (snd st)) = n + inserted (fst st) \<Longrightarrow>
   length (artifacts (snd (fst (processToolCall L c decoded kv st))))
     = n + inserted (fst (fst (processToolCall L c decoded kv st)))"
  by (auto simp: processToolCall_def Let_def inserted_def artifacts_storeArtifact
      split: if_splits option.splits)

lemma storeCodeBlock_inserted:
  "length (artifacts (snd st)) = n + inserted (fst st) \<Longrightarrow>
   length (artifacts (snd (fst (storeCodeBlock L c decoded i block st))))
     = n + inserted (fst (fst (storeCodeBlock L c decoded i block st)))"
  by (auto simp: storeCodeBlock_def Let_def inserted_def artifacts_storeArtifact
      split: if_splits option.splits)

lemma scanEntry_inserted:
  "length (artifacts (snd st)) = n + inserted (fst st) \<Longrightarrow>
   length (artifacts (snd (fst (scanEntry L c decoded ie st))))
     = n + inserted (fst (fst (scanEntry L c decoded ie st)))"
  using loop_invariant[where I = "\<lambda>st. length (artifacts (snd st)) = n + inserted (fst st)"
      and body = "storeCodeBlock L c decoded (fst ie)" and st = st, OF storeCodeBlock_inserted]
  by (auto simp: scanEntry_def split: option.splits)

lemma enumerate_blocks:
  "sum_list (map (\<lambda>ie. length (entryBlocks L (snd ie))) (enumerate i decoded))
   = length (concat (map (entryBlocks L) decoded))"
  by (induction decoded arbitrary: i) simp_all

text \<open>What a run that returns normally leaves in the store.\<close>

lemma processJSONLFile_returns:
  assumes "processJSONLFile L fs filePath c db = (Some (Inr res1), db1)"
  shows "(\<forall>kv\<in>set (toolCallsOf L fs filePath). artifactExists db1 c (toolCallHash L (fst kv) (snd kv)))
     \<and> (\<forall>content. fs filePath = Some content \<longrightarrow>
           (\<forall>entry\<in>set (decodeAll L (nonEmptyLines content)).
              assistantText L entry \<noteq> None
              \<and> (\<forall>b\<in>set (entryBlocks L entry). artifactExists db1 c (sha256 L (cb_content b)))))
     \<and> fs filePath \<noteq> None
     \<and> length (artifacts db1) = length (artifacts db) + inserted res1"
proof -
  obtain content where some: "fs filePath = Some content"
    using assms by (cases "fs filePath") (auto simp: processJSONLFile_def)
  let ?lines = "nonEmptyLines content"
  let ?D = "decodeAll L ?lines"
  let ?calls = "loopUntilThrow (processToolCall L c ?D) (firstPass L 0 ?lines []) (noResults, db)"
  let ?blocks = "loopUntilThrow (scanEntry L c ?D) (enumerate 0 ?D) (fst ?calls)"
  have ok: "snd ?calls" "snd ?blocks" and res: "fst ?blocks = (res1, db1)"
    using assms some by (auto simp: processJSONLFile_def Let_def prod_eq_iff split: if_splits)
  have db1: "snd (fst ?blocks) = db1" and r1: "fst (fst ?blocks) = res1" using res by simp_all
  have grow: "set (artifacts (snd (fst ?calls))) \<subseteq> set (artifacts db1)"
    using loop_grows[where body = "scanEntry L c ?D" and st = "fst ?calls" and xs = "enumerate 0 ?D",
        OF scanEntry_grows] db1 by simp
  have "\<forall>kv\<in>set (firstPass L 0 ?lines []). \<forall>k\<in>{toolCallHash L (fst kv) (snd kv)}.
          artifactExists (snd (fst ?calls)) c k"
  proof (rule loop_keys)
    show "\<And>x st. set (artifacts (snd st)) \<subseteq> set (artifacts (snd (fst (processToolCall L c ?D x st))))"
      by (rule processToolCall_grows)
    show "\<And>x st k. snd (processToolCall L c ?D x st) \<Longrightarrow> k \<in> {toolCallHash L (fst x) (snd x)} \<Longrightarrow>
            artifactExists (snd (fst (processToolCall L c ?D x st))) c k"
      using processToolCall_done by auto
    show "snd ?calls" by (rule ok(1))
  qed
  then have calls: "\<forall>kv\<in>set (toolCallsOf L fs filePath). artifactExists db1 c (toolCallHash L (fst kv) (snd kv))"
    using grow artifactExists_mono some by (simp add: toolCallsOf_def)
  have texts: "\<forall>ie\<in>set (enumerate 0 ?D). assistantText L (snd ie) \<noteq> None"
  proof (rule loop_ok[where body = "scanEntry L c ?D" and st = "fst ?calls"])
    show "\<And>x st. snd (scanEntry L c ?D x st) \<Longrightarrow> assistantText L (snd x) \<noteq> None"
      by (rule scanEntry_text)
    show "snd ?blocks" by (rule ok(2))
  qed
  have keys: "\<forall>ie\<in>set (enumerate 0 ?D). \<forall>k\<in>(\<lambda>b. sha256 L (cb_content b)) ` set (entryBlocks L (snd ie)).
          artifactExists (snd (fst ?blocks)) c k"
  proof (rule loop_keys)
    show "\<And>x st. set (artifacts (snd st)) \<subseteq> set (artifacts (snd (fst (scanEntry L c ?D x st))))"
      by (rule scanEntry_grows)
    show "\<And>x st k. snd (scanEntry L c ?D x st) \<Longrightarrow>
            k \<in> (\<lambda>b. sha256 L (cb_content b)) ` set (entryBlocks L (snd x)) \<Longrightarrow>
            artifactExists (snd (fst (scanEntry L c ?D x st))) c k"
      by (rule scanEntry_done)
    show "snd ?blocks" by (rule ok(2))
  qed
  have every: "\<forall>entry\<in>set ?D. \<exists>ie\<in>set (enumerate 0 ?D). snd ie = entry"
  proof -
    have "set ?D = snd ` set (enumerate 0 ?D)" by (metis map_snd_enumerate set_map)
    then show ?thesis by auto
  qed
  have blocks: "\<forall>entry\<in>set ?D. assistantText L entry \<noteq> None
              \<and> (\<forall>b\<in>set (entryBlocks L entry). artifactExists db1 c (sha256 L (cb_content b)))"
  proof
    fix entry assume "entry \<in> set ?D"
    then obtain ie where ie: "ie \<in> set (enumerate 0 ?D)" "snd ie = entry" using every by blast
    show "assistantText L entry \<noteq> None
              \<and> (\<forall>b\<in>set (entryBlocks L entry). artifactExists db1 c (sha256 L (cb_content b)))"
      using texts keys ie db1 by auto
  qed
  have i0: "length (artifacts (snd (noResults, db))) = length (artifacts db) + inserted (fst (noResults, db))"
    by (simp add: inserted_def noResults_def)
  have i1: "length (artifacts (snd (fst ?calls))) = length (artifacts db) + inserted (fst (fst ?calls))"
    using loop_invariant[where I = "\<lambda>st. length (artifacts (snd st)) = length (artifacts db) + inserted (fst st)"
        and body = "processToolCall L c ?D" and st = "(noResults, db)"
        and xs = "firstPass L 0 ?lines []", OF processToolCall_inserted i0] .
  have i2: "length (artifacts (snd (fst ?blocks))) = length (artifacts db) + inserted (fst (fst ?blocks))"
    using loop_invariant[where I = "\<lambda>st. length (artifacts (snd st)) = length (artifacts db) + inserted (fst st)"
        and body = "scanEntry L c ?D" and st = "fst ?calls"
        and xs = "enumerate 0 ?D", OF scanEntry_inserted i1] .
  show ?thesis using calls blocks some i2 db1 r1 by simp
qed

lemma scanEntry_frame:
  "conversations (snd (fst (scanEntry L c decoded ie st))) = conversations (snd st)
   \<and> conversation_entries (snd (fst (scanEntry L c decoded ie st))) = conversation_entries (snd st)"
proof -
  have "\<And>xs. conversations (snd (fst (loopUntilThrow (storeCodeBlock L c decoded (fst ie)) xs st))) = conversations (snd st)
     \<and> conversation_entries (snd (fst (loopUntilThrow (storeCodeBlock L c decoded (fst ie)) xs st)))
         = conversation_entries (snd st)"
    by (rule loop_invariant[where I = "\<lambda>s. conversations (snd s) = conversations (snd st)
          \<and> conversation_entries (snd s) = conversation_entries (snd st)"])
       (simp_all add: storeCodeBlock_frame)
  then show ?thesis by (auto simp: scanEntry_def split: option.splits)
qed

lemma processJSONLFile_frame:
  "conversations (snd (processJSONLFile L fs filePath c db)) = conversations db
   \<and> conversation_entries (snd (processJSONLFile L fs filePath c db)) = conversation_entries db"
proof (cases "fs filePath")
  case None
  then show ?thesis by (simp add: processJSONLFile_def)
next
  case (Some content)
  let ?lines = "nonEmptyLines content"
  let ?D = "decodeAll L ?lines"
  let ?calls = "loopUntilThrow (processToolCall L c ?D) (firstPass L 0 ?lines []) (noResults, db)"
  let ?blocks = "loopUntilThrow (scanEntry L c ?D) (enumerate 0 ?D) (fst ?calls)"
  let ?I = "\<lambda>s. conversations (snd s) = conversations db \<and> conversation_entries (snd s) = conversation_entries db"
  have c: "?I (fst ?calls)"
    by (rule loop_invariant[where I = ?I]) (simp_all add: processToolCall_frame)
  have b: "?I (fst ?blocks)"
    by (rule loop_invariant[where I = ?I]) (simp_all add: scanEntry_frame c)
  show ?thesis
    using Some c b by (auto simp: processJSONLFile_def Let_def)
qed

text \<open>The path over the stored entries: one block, one row, the whole scan.\<close>

lemma storedBlock_bindable:
  "bindableArtifact ((codeBlockArtifact c h block (if truthy prev then JStr s else JNull))\<lparr>a_entryId := JNum n\<rparr>)"
  by (simp add: bindableArtifact_def codeBlockArtifact_def blankArtifact_def orElse_def)

lemma storeRowBlock_cases:
  fixes L c rows i row block st
  defines "r \<equiv> storeRowBlock L c rows i row block st"
  defines "h \<equiv> sha256 L (cb_content block)"
  shows "(artifactExists (snd st) c h
            \<and> r = ((fst st\<lparr>er_skipped := er_skipped (fst st) + 1\<rparr>, snd st), True))
       \<or> (\<exists>a db1. \<not> artifactExists (snd st) c h
             \<and> a_conversationId a = c \<and> a_contentHash a = h \<and> a_type a = ''code_block''
             \<and> storeArtifact L a (snd st) = Some db1
             \<and> r = ((fst st\<lparr>er_codeBlocks := er_codeBlocks (fst st) + 1\<rparr>, db1), True))"
proof (cases "artifactExists (snd st) c h")
  case True
  then show ?thesis unfolding r_def h_def by (simp add: storeRowBlock_def Let_def)
next
  case False
  let ?prev = "if i > 0 then JStr (e_content (rows ! (i - 1))) else JNull"
  let ?a = "(codeBlockArtifact c h block
               (if truthy ?prev then JStr (sliceLast PROMPT_CONTEXT_LENGTH (strOf ?prev)) else JNull))
            \<lparr>a_entryId := JNum (int (e_id row))\<rparr>"
  let ?db1 = "(snd st)\<lparr>artifacts := artifacts (snd st) @ [artifactRow L ?a]\<rparr>"
  have stored: "storeArtifact L ?a (snd st) = Some ?db1"
    by (simp only: storeArtifact_def storedBlock_bindable if_True)
  have key: "a_conversationId ?a = c \<and> a_contentHash ?a = h \<and> a_type ?a = ''code_block''"
    by (simp add: codeBlockArtifact_key)
  have "r = ((fst st\<lparr>er_codeBlocks := er_codeBlocks (fst st) + 1\<rparr>, ?db1), True)"
    using False stored unfolding r_def h_def
    by (simp only: storeRowBlock_def Let_def if_False option.case)
  then show ?thesis using False stored key by blast
qed

lemma storeRowBlock_returns: "snd (storeRowBlock L c rows i row block st)"
  using storeRowBlock_cases[where L = L and c = c and rows = rows and i = i and row = row
      and block = block and st = st]
  by auto

lemma storeRowBlock_skip:
  "artifactExists db c (sha256 L (cb_content block)) \<Longrightarrow>
   storeRowBlock L c rows i row block (res, db) = ((res\<lparr>er_skipped := er_skipped res + 1\<rparr>, db), True)"
  by (simp add: storeRowBlock_def Let_def)

lemma storeRowBlock_rows:
  assumes "a \<in> set (artifacts (snd (fst (storeRowBlock L c rows i row block st))))"
  shows "a \<in> set (artifacts (snd st)) \<or> a_type a = ''code_block''"
  using storeRowBlock_cases[where L = L and c = c and rows = rows and i = i and row = row
      and block = block and st = st] assms
  by (auto simp: artifactRow_key dest!: artifacts_storeArtifact)

lemma storeRowBlock_grows:
  "set (artifacts (snd st)) \<subseteq> set (artifacts (snd (fst (storeRowBlock L c rows i row block st))))"
  using storeRowBlock_cases[where L = L and c = c and rows = rows and i = i and row = row
      and block = block and st = st]
  by (auto dest!: artifacts_storeArtifact)

lemma storeRowBlock_done:
  "artifactExists (snd (fst (storeRowBlock L c rows i row block st))) c (sha256 L (cb_content block))"
proof -
  have one: "\<And>a db1. a_conversationId a = c \<Longrightarrow> a_contentHash a = sha256 L (cb_content block)
      \<Longrightarrow> storeArtifact L a (snd st) = Some db1
      \<Longrightarrow> artifactExists db1 c (sha256 L (cb_content block))"
    by (simp add: artifactExists_storeArtifact)
  show ?thesis
    using storeRowBlock_cases[where L = L and c = c and rows = rows and i = i and row = row
        and block = block and st = st] one
    by auto
qed

lemma storeRowBlock_jsonObjects:
  "er_jsonObjects (fst (fst (storeRowBlock L c rows i row block st))) = er_jsonObjects (fst st)"
  using storeRowBlock_cases[where L = L and c = c and rows = rows and i = i and row = row
      and block = block and st = st]
  by auto

lemma storeRowBlock_frame:
  "conversations (snd (fst (storeRowBlock L c rows i row block st))) = conversations (snd st)
   \<and> conversation_entries (snd (fst (storeRowBlock L c rows i row block st))) = conversation_entries (snd st)"
  using storeRowBlock_cases[where L = L and c = c and rows = rows and i = i and row = row
      and block = block and st = st]
  by (auto dest!: storeArtifact_frame)

lemma storeRowBlock_inserted:
  "length (artifacts (snd st)) = n + er_codeBlocks (fst st) \<Longrightarrow>
   length (artifacts (snd (fst (storeRowBlock L c rows i row block st))))
     = n + er_codeBlocks (fst (fst (storeRowBlock L c rows i row block st)))"
  using storeRowBlock_cases[where L = L and c = c and rows = rows and i = i and row = row
      and block = block and st = st]
  by (auto dest!: artifacts_storeArtifact)

lemma loop_returns:
  assumes "\<And>x st. snd (body x st)"
  shows "snd (loopUntilThrow body xs st)"
  by (induction xs arbitrary: st) (simp_all add: assms)

lemma loop_skipping_rows:
  assumes "\<And>x res. x \<in> set xs \<Longrightarrow>
             body x (res, db) = ((res\<lparr>er_skipped := er_skipped res + n x\<rparr>, db), True)"
  shows "loopUntilThrow body xs (res, db)
         = ((res\<lparr>er_skipped := er_skipped res + sum_list (map n xs)\<rparr>, db), True)"
  using assms
proof (induction xs arbitrary: res)
  case Nil
  then show ?case by simp
next
  case (Cons x xs)
  have first: "body x (res, db) = ((res\<lparr>er_skipped := er_skipped res + n x\<rparr>, db), True)"
    using Cons.prems[of x res] by simp
  have rest: "loopUntilThrow body xs (res\<lparr>er_skipped := er_skipped res + n x\<rparr>, db)
        = ((res\<lparr>er_skipped := er_skipped res + n x + sum_list (map n xs)\<rparr>, db), True)"
    using Cons.IH[of "res\<lparr>er_skipped := er_skipped res + n x\<rparr>"] Cons.prems by simp
  show ?case using first rest by (simp add: add.assoc)
qed

lemma scanRow_loop:
  "scanRow L c rows ir st
   = loopUntilThrow (storeRowBlock L c rows (fst ir) (snd ir)) (rowBlocks (snd ir)) st"
  by (simp add: scanRow_def rowBlocks_def)

lemma scanRow_returns: "snd (scanRow L c rows ir st)"
  unfolding scanRow_loop by (rule loop_returns) (rule storeRowBlock_returns)

lemma scanRow_rows:
  assumes "a \<in> set (artifacts (snd (fst (scanRow L c rows ir st))))"
  shows "a \<in> set (artifacts (snd st)) \<or> a_type a = ''code_block''"
proof -
  have step: "\<forall>x st a. a \<in> set (artifacts (snd (fst (storeRowBlock L c rows (fst ir) (snd ir) x st)))) \<longrightarrow>
      a \<in> set (artifacts (snd st)) \<or> a_type a = ''code_block''"
    using storeRowBlock_rows by blast
  have "a \<in> set (artifacts (snd st)) \<or> (\<exists>x\<in>set (rowBlocks (snd ir)). a_type a = ''code_block'')"
    using assms
      loop_rows[where body = "storeRowBlock L c rows (fst ir) (snd ir)"
        and Q = "\<lambda>x a. a_type a = ''code_block''" and st = st and a = a
        and xs = "rowBlocks (snd ir)", OF step]
    by (simp add: scanRow_loop)
  then show ?thesis by auto
qed

lemma scanRow_grows:
  "set (artifacts (snd st)) \<subseteq> set (artifacts (snd (fst (scanRow L c rows ir st))))"
  unfolding scanRow_loop by (rule loop_grows) (rule storeRowBlock_grows)

lemma scanRow_jsonObjects:
  "er_jsonObjects (fst (fst (scanRow L c rows ir st))) = er_jsonObjects (fst st)"
  unfolding scanRow_loop by (rule loop_counter) (rule storeRowBlock_jsonObjects)

lemma scanRow_frame:
  "conversations (snd (fst (scanRow L c rows ir st))) = conversations (snd st)
   \<and> conversation_entries (snd (fst (scanRow L c rows ir st))) = conversation_entries (snd st)"
  unfolding scanRow_loop
  by (rule loop_invariant[where I = "\<lambda>s. conversations (snd s) = conversations (snd st)
          \<and> conversation_entries (snd s) = conversation_entries (snd st)"])
     (simp_all add: storeRowBlock_frame)

lemma scanRow_inserted:
  "length (artifacts (snd st)) = n + er_codeBlocks (fst st) \<Longrightarrow>
   length (artifacts (snd (fst (scanRow L c rows ir st))))
     = n + er_codeBlocks (fst (fst (scanRow L c rows ir st)))"
  unfolding scanRow_loop
  by (rule loop_invariant[where I = "\<lambda>s. length (artifacts (snd s)) = n + er_codeBlocks (fst s)"])
     (simp_all add: storeRowBlock_inserted)

lemma scanRow_done:
  assumes "k \<in> (\<lambda>b. sha256 L (cb_content b)) ` set (rowBlocks (snd ir))"
  shows "artifactExists (snd (fst (scanRow L c rows ir st))) c k"
proof -
  have "\<forall>b\<in>set (rowBlocks (snd ir)). \<forall>k\<in>{sha256 L (cb_content b)}.
          artifactExists (snd (fst (loopUntilThrow (storeRowBlock L c rows (fst ir) (snd ir))
                                      (rowBlocks (snd ir)) st))) c k"
  proof (rule loop_keys)
    show "\<And>x st. set (artifacts (snd st)) \<subseteq> set (artifacts (snd (fst (storeRowBlock L c rows (fst ir) (snd ir) x st))))"
      by (rule storeRowBlock_grows)
    show "\<And>x st k. snd (storeRowBlock L c rows (fst ir) (snd ir) x st) \<Longrightarrow> k \<in> {sha256 L (cb_content x)} \<Longrightarrow>
            artifactExists (snd (fst (storeRowBlock L c rows (fst ir) (snd ir) x st))) c k"
      using storeRowBlock_done by auto
    show "snd (loopUntilThrow (storeRowBlock L c rows (fst ir) (snd ir)) (rowBlocks (snd ir)) st)"
      by (rule loop_returns) (rule storeRowBlock_returns)
  qed
  then show ?thesis using assms by (auto simp: scanRow_loop)
qed

lemma scanRow_skip:
  assumes "\<forall>b\<in>set (rowBlocks (snd ir)). artifactExists db c (sha256 L (cb_content b))"
  shows "scanRow L c rows ir (res, db)
         = ((res\<lparr>er_skipped := er_skipped res + length (rowBlocks (snd ir))\<rparr>, db), True)"
proof -
  have "loopUntilThrow (storeRowBlock L c rows (fst ir) (snd ir)) (rowBlocks (snd ir)) (res, db)
          = ((res\<lparr>er_skipped := er_skipped res + sum_list (map (\<lambda>b. 1) (rowBlocks (snd ir)))\<rparr>, db), True)"
  proof (rule loop_skipping_rows)
    fix x r
    assume "x \<in> set (rowBlocks (snd ir))"
    then have "artifactExists db c (sha256 L (cb_content x))" using assms by simp
    then show "storeRowBlock L c rows (fst ir) (snd ir) x (r, db)
               = ((r\<lparr>er_skipped := er_skipped r + 1\<rparr>, db), True)"
      by (rule storeRowBlock_skip)
  qed
  then show ?thesis by (simp add: scanRow_loop sum_list_triv)
qed

lemma enumerate_rowBlocks:
  "sum_list (map (\<lambda>ir. length (rowBlocks (snd ir))) (enumerate i rows))
   = length (concat (map rowBlocks rows))"
  by (induction rows arbitrary: i) simp_all

text \<open>The scan of the stored entries of a conversation, as \<^verbatim>\<open>processConversationEntries\<close> runs it.\<close>

lemma scanRows_first:
  fixes L c db
  defines "rows \<equiv> storedRows db c"
  defines "scanned \<equiv> loopUntilThrow (scanRow L c rows) (enumerate 0 rows)
                       (\<lparr>er_codeBlocks = 0, er_jsonObjects = 0, er_skipped = 0\<rparr>, db)"
  shows "snd scanned"
    and "\<forall>row\<in>set rows. \<forall>b\<in>set (rowBlocks row). artifactExists (snd (fst scanned)) c (sha256 L (cb_content b))"
    and "length (artifacts (snd (fst scanned))) = length (artifacts db) + er_codeBlocks (fst (fst scanned))"
    and "conversations (snd (fst scanned)) = conversations db"
    and "conversation_entries (snd (fst scanned)) = conversation_entries db"
proof -
  show ok: "snd scanned"
    unfolding scanned_def by (rule loop_returns) (rule scanRow_returns)
  have keys: "\<forall>ir\<in>set (enumerate 0 rows). \<forall>k\<in>(\<lambda>b. sha256 L (cb_content b)) ` set (rowBlocks (snd ir)).
          artifactExists (snd (fst scanned)) c k"
    unfolding scanned_def
  proof (rule loop_keys)
    show "\<And>x st. set (artifacts (snd st)) \<subseteq> set (artifacts (snd (fst (scanRow L c rows x st))))"
      by (rule scanRow_grows)
    show "\<And>x st k. snd (scanRow L c rows x st) \<Longrightarrow>
            k \<in> (\<lambda>b. sha256 L (cb_content b)) ` set (rowBlocks (snd x)) \<Longrightarrow>
            artifactExists (snd (fst (scanRow L c rows x st))) c k"
      using scanRow_done by blast
    show "snd (loopUntilThrow (scanRow L c rows) (enumerate 0 rows)
                 (\<lparr>er_codeBlocks = 0, er_jsonObjects = 0, er_skipped = 0\<rparr>, db))"
      using ok by (simp add: scanned_def)
  qed
  have every: "set rows = snd ` set (enumerate 0 rows)" by (metis map_snd_enumerate set_map)
  show "\<forall>row\<in>set rows. \<forall>b\<in>set (rowBlocks row). artifactExists (snd (fst scanned)) c (sha256 L (cb_content b))"
  proof (intro ballI)
    fix row b assume "row \<in> set rows" "b \<in> set (rowBlocks row)"
    then obtain ir where "ir \<in> set (enumerate 0 rows)" "snd ir = row" using every by auto
    then show "artifactExists (snd (fst scanned)) c (sha256 L (cb_content b))"
      using keys \<open>b \<in> set (rowBlocks row)\<close> by auto
  qed
  show "length (artifacts (snd (fst scanned))) = length (artifacts db) + er_codeBlocks (fst (fst scanned))"
    unfolding scanned_def
    by (rule loop_invariant[where I = "\<lambda>s. length (artifacts (snd s)) = length (artifacts db) + er_codeBlocks (fst s)"])
       (simp_all add: scanRow_inserted)
  have "conversations (snd (fst scanned)) = conversations db
        \<and> conversation_entries (snd (fst scanned)) = conversation_entries db"
    unfolding scanned_def
    by (rule loop_invariant[where I = "\<lambda>s. conversations (snd s) = conversations db
          \<and> conversation_entries (snd s) = conversation_entries db"])
       (simp_all add: scanRow_frame)
  then show "conversations (snd (fst scanned)) = conversations db"
    and "conversation_entries (snd (fst scanned)) = conversation_entries db"
    by simp_all
qed

lemma scanRows_again:
  assumes "\<forall>row\<in>set rows. \<forall>b\<in>set (rowBlocks row). artifactExists db c (sha256 L (cb_content b))"
  shows "loopUntilThrow (scanRow L c rows) (enumerate 0 rows)
           (\<lparr>er_codeBlocks = 0, er_jsonObjects = 0, er_skipped = 0\<rparr>, db)
         = ((\<lparr>er_codeBlocks = 0, er_jsonObjects = 0, er_skipped = length (concat (map rowBlocks rows))\<rparr>, db), True)"
proof -
  have "loopUntilThrow (scanRow L c rows) (enumerate 0 rows)
           (\<lparr>er_codeBlocks = 0, er_jsonObjects = 0, er_skipped = 0\<rparr>, db)
        = ((\<lparr>er_codeBlocks = 0, er_jsonObjects = 0, er_skipped = 0\<rparr>
              \<lparr>er_skipped := er_skipped \<lparr>er_codeBlocks = 0, er_jsonObjects = 0, er_skipped = 0\<rparr>
                 + sum_list (map (\<lambda>ir. length (rowBlocks (snd ir))) (enumerate 0 rows))\<rparr>, db), True)"
  proof (rule loop_skipping_rows)
    fix x r
    assume "x \<in> set (enumerate 0 rows)"
    then have "fst x < length rows \<and> rows ! fst x = snd x" by (simp add: in_set_enumerate_eq)
    then have "snd x \<in> set rows" using nth_mem by metis
    then have "\<forall>b\<in>set (rowBlocks (snd x)). artifactExists db c (sha256 L (cb_content b))"
      using assms by simp
    then show "scanRow L c rows x (r, db)
               = ((r\<lparr>er_skipped := er_skipped r + length (rowBlocks (snd x))\<rparr>, db), True)"
      by (rule scanRow_skip)
  qed
  then show ?thesis by (simp add: enumerate_rowBlocks)
qed

text \<open>The second run of \<^verbatim>\<open>processJSONLFile\<close>, from the store a first run that returned left.\<close>

lemma processJSONLFile_again:
  assumes "processJSONLFile L fs filePath c db = (Some (Inr res1), db1)"
  shows "processJSONLFile L fs filePath c db1
           = (Some (Inr \<lparr>codeBlocks = 0, toolCalls = 0, toolResults = 0, jsonObjects = 0,
                          skippedCount = length (toolCallsOf L fs filePath)
                                         + length (codeBlocksOf L fs filePath)\<rparr>), db1)
         \<and> length (artifacts db1) = length (artifacts db) + toolCalls res1 + toolResults res1 + codeBlocks res1"
proof -
  note first = processJSONLFile_returns[OF assms]
  obtain content where some: "fs filePath = Some content" using first by auto
  let ?lines = "nonEmptyLines content"
  let ?D = "decodeAll L ?lines"
  let ?n = "length (firstPass L 0 ?lines [])"
  have calls: "loopUntilThrow (processToolCall L c ?D) (firstPass L 0 ?lines []) (noResults, db1)
        = ((noResults\<lparr>skippedCount := skippedCount noResults
                + sum_list (map (\<lambda>kv. 1) (firstPass L 0 ?lines []))\<rparr>, db1), True)"
  proof (rule loop_skipping)
    fix x r
    assume "x \<in> set (firstPass L 0 ?lines [])"
    then have "artifactExists db1 c (toolCallHash L (fst x) (snd x))"
      using first some by (simp add: toolCallsOf_def)
    then show "processToolCall L c ?D x (r, db1) = ((r\<lparr>skippedCount := skippedCount r + 1\<rparr>, db1), True)"
      by (rule processToolCall_skip)
  qed
  then have calls': "loopUntilThrow (processToolCall L c ?D) (firstPass L 0 ?lines []) (noResults, db1)
        = ((noResults\<lparr>skippedCount := ?n\<rparr>, db1), True)"
    by (simp add: sum_list_triv noResults_def)
  have blocks: "loopUntilThrow (scanEntry L c ?D) (enumerate 0 ?D) (noResults\<lparr>skippedCount := ?n\<rparr>, db1)
        = ((noResults\<lparr>skippedCount := ?n\<rparr>\<lparr>skippedCount := skippedCount (noResults\<lparr>skippedCount := ?n\<rparr>)
                + sum_list (map (\<lambda>ie. length (entryBlocks L (snd ie))) (enumerate 0 ?D))\<rparr>, db1), True)"
  proof (rule loop_skipping)
    fix x r
    assume "x \<in> set (enumerate 0 ?D)"
    then have "fst x < length ?D \<and> ?D ! fst x = snd x" by (simp add: in_set_enumerate_eq)
    then have "snd x \<in> set ?D" using nth_mem by metis
    then have "assistantText L (snd x) \<noteq> None"
      and "\<forall>b\<in>set (entryBlocks L (snd x)). artifactExists db1 c (sha256 L (cb_content b))"
      using first some by auto
    then show "scanEntry L c ?D x (r, db1)
               = ((r\<lparr>skippedCount := skippedCount r + length (entryBlocks L (snd x))\<rparr>, db1), True)"
      by (rule scanEntry_skip)
  qed
  have run: "processJSONLFile L fs filePath c db1
           = (Some (Inr \<lparr>codeBlocks = 0, toolCalls = 0, toolResults = 0, jsonObjects = 0,
                          skippedCount = length (toolCallsOf L fs filePath)
                                         + length (codeBlocksOf L fs filePath)\<rparr>), db1)"
    using some calls' blocks
    by (simp add: processJSONLFile_def Let_def enumerate_blocks toolCallsOf_def codeBlocksOf_def noResults_def)
  show ?thesis using run first by (simp add: inserted_def)
qed

text \<open>The second run of \<^verbatim>\<open>processConversationEntries\<close>, on either path.\<close>

lemma processConversationEntries_again:
  assumes "processConversationEntries L fs c db = (Some (Inr rep1), db2)"
  shows "\<exists>conv. find (\<lambda>conv. c_id conv = c) (conversations db) = Some conv
      \<and> processConversationEntries L fs c db2
          = (Some (Inr (if c_source_file_type conv = ''jsonl'' \<and> fs (c_source_file_path conv) \<noteq> None
                        then FromFile \<lparr>codeBlocks = 0, toolCalls = 0, toolResults = 0, jsonObjects = 0,
                               skippedCount = length (toolCallsOf L fs (c_source_file_path conv))
                                              + length (codeBlocksOf L fs (c_source_file_path conv))\<rparr>
                        else FromEntries \<lparr>er_codeBlocks = 0, er_jsonObjects = 0,
                               er_skipped = length (storedBlocksOf db c)\<rparr>)), db2)
      \<and> length (artifacts db2) = length (artifacts db) + reportedInserted rep1"
proof (cases "find (\<lambda>conv. c_id conv = c) (conversations db)")
  case None
  then show ?thesis using assms by (simp add: processConversationEntries_def)
next
  case (Some conv)
  show ?thesis
  proof (cases "c_source_file_type conv = ''jsonl'' \<and> fs (c_source_file_path conv) \<noteq> None")
    case True
    let ?path = "c_source_file_path conv"
    obtain r db' where pj: "processJSONLFile L fs ?path c db = (r, db')"
      by (cases "processJSONLFile L fs ?path c db")
    have eq: "processConversationEntries L fs c db = (map_option (map_sum id FromFile) r, db')"
      using Some True pj by (simp add: processConversationEntries_def)
    then obtain res1 where r: "r = Some (Inr res1)" and rep1: "rep1 = FromFile res1" and db': "db' = db2"
      using assms by (cases r) (auto simp: map_sum_def split: sum.splits)
    have first: "processJSONLFile L fs ?path c db = (Some (Inr res1), db2)" using pj r db' by simp
    note again = processJSONLFile_again[OF first]
    have convs: "conversations db2 = conversations db"
      using processJSONLFile_frame[of L fs ?path c db] first by simp
    have "processConversationEntries L fs c db2
          = (Some (Inr (FromFile \<lparr>codeBlocks = 0, toolCalls = 0, toolResults = 0, jsonObjects = 0,
                               skippedCount = length (toolCallsOf L fs ?path)
                                              + length (codeBlocksOf L fs ?path)\<rparr>)), db2)"
      using Some True convs again by (simp add: processConversationEntries_def)
    then show ?thesis using Some True again rep1 by simp
  next
    case False
    let ?rows = "storedRows db c"
    let ?scanned = "loopUntilThrow (scanRow L c ?rows) (enumerate 0 ?rows)
                       (\<lparr>er_codeBlocks = 0, er_jsonObjects = 0, er_skipped = 0\<rparr>, db)"
    note first = scanRows_first[where L = L and c = c and db = db]
    have run1: "processConversationEntries L fs c db
                = (Some (Inr (FromEntries (fst (fst ?scanned)))), snd (fst ?scanned))"
      using Some False first(1) by (auto simp: processConversationEntries_def Let_def storedRows_def)
    then have rep1: "rep1 = FromEntries (fst (fst ?scanned))" and db2: "db2 = snd (fst ?scanned)"
      using assms by simp_all
    have convs: "conversations db2 = conversations db" and ents: "conversation_entries db2 = conversation_entries db"
      using first(4,5) db2 by simp_all
    have rows2: "storedRows db2 c = ?rows" using ents by (simp add: storedRows_def)
    have ex: "\<forall>row\<in>set ?rows. \<forall>b\<in>set (rowBlocks row). artifactExists db2 c (sha256 L (cb_content b))"
      using first(2) db2 by simp
    have "processConversationEntries L fs c db2
          = (Some (Inr (FromEntries \<lparr>er_codeBlocks = 0, er_jsonObjects = 0,
                               er_skipped = length (storedBlocksOf db c)\<rparr>)), db2)"
      using Some False convs scanRows_again[OF ex] rows2
      by (auto simp: processConversationEntries_def Let_def storedRows_def[symmetric] storedBlocksOf_def)
    moreover have "length (artifacts db2) = length (artifacts db) + reportedInserted rep1"
      using first(3) rep1 db2 by simp
    ultimately show ?thesis using Some False by simp
  qed
qed

lemma processConversationEntries_returns:
  assumes "find (\<lambda>conv. c_id conv = c) (conversations db) = Some conv"
    and "\<not> (c_source_file_type conv = ''jsonl'' \<and> fs (c_source_file_path conv) \<noteq> None)"
  shows "\<exists>res. fst (processConversationEntries L fs c db) = Some (Inr (FromEntries res))"
  using assms scanRows_first(1)[where L = L and c = c and db = db]
  by (auto simp: processConversationEntries_def Let_def storedRows_def)

text \<open>
  Claim C4, as amended. Extraction is idempotent on both of its paths. When a run of
  \<^verbatim>\<open>processJSONLFile\<close>, or of \<^verbatim>\<open>processConversationEntries\<close> over the file or
  over the stored entries of the conversation, returns normally, the number of rows it
  added is the sum of its counts, and a second run from the store it left inserts
  nothing, leaves the store as it is and returns normally with all counts zero but the
  skip count. Over the file the skip count is the number of tool calls of the file plus
  the number of code blocks of its assistant texts: the results of the skipped tool
  calls are not looked at and not counted. Over the stored entries it is the number of
  code blocks of the assistant entries, and that run always returns.
\<close>

theorem extraction_rerun_inserts_nothing:
  "(processJSONLFile L fs filePath c db = (Some (Inr res), db') \<longrightarrow>
      processJSONLFile L fs filePath c db'
        = (Some (Inr \<lparr>codeBlocks = 0, toolCalls = 0, toolResults = 0, jsonObjects = 0,
                       skippedCount = length (toolCallsOf L fs filePath)
                                      + length (codeBlocksOf L fs filePath)\<rparr>), db')
      \<and> length (artifacts db') = length (artifacts db) + toolCalls res + toolResults res + codeBlocks res)
   \<and> (processConversationEntries L fs c db = (Some (Inr rep), db'') \<longrightarrow>
       (\<exists>conv. find (\<lambda>conv. c_id conv = c) (conversations db) = Some conv
          \<and> processConversationEntries L fs c db''
              = (Some (Inr (if c_source_file_type conv = ''jsonl'' \<and> fs (c_source_file_path conv) \<noteq> None
                            then FromFile \<lparr>codeBlocks = 0, toolCalls = 0, toolResults = 0, jsonObjects = 0,
                                   skippedCount = length (toolCallsOf L fs (c_source_file_path conv))
                                                  + length (codeBlocksOf L fs (c_source_file_path conv))\<rparr>
                            else FromEntries \<lparr>er_codeBlocks = 0, er_jsonObjects = 0,
                                   er_skipped = length (storedBlocksOf db c)\<rparr>)), db'')
          \<and> length (artifacts db'') = length (artifacts db) + reportedInserted rep))
   \<and> (\<forall>conv. find (\<lambda>conv. c_id conv = c) (conversations db) = Some conv
         \<and> \<not> (c_source_file_type conv = ''jsonl'' \<and> fs (c_source_file_path conv) \<noteq> None)
         \<longrightarrow> (\<exists>er. fst (processConversationEntries L fs c db) = Some (Inr (FromEntries er))))"
proof (intro conjI impI allI)
  assume "processJSONLFile L fs filePath c db = (Some (Inr res), db')"
  then have again: "processJSONLFile L fs filePath c db'
           = (Some (Inr \<lparr>codeBlocks = 0, toolCalls = 0, toolResults = 0, jsonObjects = 0,
                          skippedCount = length (toolCallsOf L fs filePath)
                                         + length (codeBlocksOf L fs filePath)\<rparr>), db')
         \<and> length (artifacts db') = length (artifacts db) + toolCalls res + toolResults res + codeBlocks res"
    by (rule processJSONLFile_again)
  show "processJSONLFile L fs filePath c db'
           = (Some (Inr \<lparr>codeBlocks = 0, toolCalls = 0, toolResults = 0, jsonObjects = 0,
                          skippedCount = length (toolCallsOf L fs filePath)
                                         + length (codeBlocksOf L fs filePath)\<rparr>), db')"
    using again by simp
  show "length (artifacts db') = length (artifacts db) + toolCalls res + toolResults res + codeBlocks res"
    using again by simp
next
  assume "processConversationEntries L fs c db = (Some (Inr rep), db'')"
  then show "\<exists>conv. find (\<lambda>conv. c_id conv = c) (conversations db) = Some conv
          \<and> processConversationEntries L fs c db''
              = (Some (Inr (if c_source_file_type conv = ''jsonl'' \<and> fs (c_source_file_path conv) \<noteq> None
                            then FromFile \<lparr>codeBlocks = 0, toolCalls = 0, toolResults = 0, jsonObjects = 0,
                                   skippedCount = length (toolCallsOf L fs (c_source_file_path conv))
                                                  + length (codeBlocksOf L fs (c_source_file_path conv))\<rparr>
                            else FromEntries \<lparr>er_codeBlocks = 0, er_jsonObjects = 0,
                                   er_skipped = length (storedBlocksOf db c)\<rparr>)), db'')
          \<and> length (artifacts db'') = length (artifacts db) + reportedInserted rep"
    by (rule processConversationEntries_again)
next
  fix conv
  assume "find (\<lambda>conv. c_id conv = c) (conversations db) = Some conv
         \<and> \<not> (c_source_file_type conv = ''jsonl'' \<and> fs (c_source_file_path conv) \<noteq> None)"
  then show "\<exists>res. fst (processConversationEntries L fs c db) = Some (Inr (FromEntries res))"
    using processConversationEntries_returns[of c db conv fs L] by blast
qed

text \<open>
  Scenario A on a store that holds its conversation: the first run stores the call
  and its result, the second run adds nothing and reports one skip. The plain-text
  conversation with one fenced block: the first run over its stored entries stores the
  block, the second run adds nothing and reports one skip.
\<close>

theorem extraction_rerun_inserts_nothing_witness:
  "processConversationEntries testLib okLog 1 sessionStore
     = (Some (Inr (FromFile \<lparr>codeBlocks = 0, toolCalls = 1, toolResults = 1, jsonObjects = 0, skippedCount = 0\<rparr>)),
        extractedStore)
   \<and> map a_type (artifacts extractedStore) = [''tool_call'', ''tool_result'']
   \<and> map a_outcome (artifacts extractedStore) = [JStr ''success'', JStr ''success'']
   \<and> map a_toolName (artifacts extractedStore) = [JStr ''Read'', JStr ''Read'']
   \<and> processConversationEntries testLib okLog 1 extractedStore
     = (Some (Inr (FromFile \<lparr>codeBlocks = 0, toolCalls = 0, toolResults = 0, jsonObjects = 0, skippedCount = 1\<rparr>)),
        extractedStore)
   \<and> processJSONLFile testLib okLog ''log.jsonl'' 1 extractedStore
     = (Some (Inr \<lparr>codeBlocks = 0, toolCalls = 0, toolResults = 0, jsonObjects = 0, skippedCount = 1\<rparr>),
        extractedStore)
   \<and> processConversationEntries testLib noFiles 1 transcriptStore
     = (Some (Inr (FromEntries \<lparr>er_codeBlocks = 1, er_jsonObjects = 0, er_skipped = 0\<rparr>)), scannedStore)
   \<and> length (artifacts scannedStore) = 1
   \<and> processConversationEntries testLib noFiles 1 scannedStore
     = (Some (Inr (FromEntries \<lparr>er_codeBlocks = 0, er_jsonObjects = 0, er_skipped = 1\<rparr>)), scannedStore)"
proof -
  let ?res1 = "\<lparr>codeBlocks = 0, toolCalls = 1, toolResults = 1, jsonObjects = 0, skippedCount = 0\<rparr>"
  let ?rep1 = "\<lparr>er_codeBlocks = 1, er_jsonObjects = 0, er_skipped = 0\<rparr>"
  have r: "fst (processConversationEntries testLib okLog 1 sessionStore) = Some (Inr (FromFile ?res1))"
    by code_simp
  then have run: "processConversationEntries testLib okLog 1 sessionStore
                  = (Some (Inr (FromFile ?res1)), extractedStore)"
    by (simp add: extractedStore_def prod_eq_iff)
  have rjf: "fst (processJSONLFile testLib okLog ''log.jsonl'' 1 sessionStore) = Some (Inr ?res1)"
    by code_simp
  have "snd (processConversationEntries testLib okLog 1 sessionStore)
        = snd (processJSONLFile testLib okLog ''log.jsonl'' 1 sessionStore)"
    by (simp add: processConversationEntries_def sessionStore_def okLog_def fileAt_def split: prod.splits)
  then have rj: "processJSONLFile testLib okLog ''log.jsonl'' 1 sessionStore = (Some (Inr ?res1), extractedStore)"
    using rjf by (simp add: extractedStore_def prod_eq_iff)
  have rows: "(map a_type (artifacts extractedStore), map a_outcome (artifacts extractedStore),
               map a_toolName (artifacts extractedStore))
        = ([''tool_call'', ''tool_result''], [JStr ''success'', JStr ''success''], [JStr ''Read'', JStr ''Read''])"
    by code_simp
  have n: "(length (toolCallsOf testLib okLog ''log.jsonl''), length (codeBlocksOf testLib okLog ''log.jsonl''))
           = (1, 0)"
    by code_simp
  have conv: "find (\<lambda>conv. c_id conv = 1) (conversations sessionStore) = Some (hd (conversations sessionStore))"
    by (simp add: sessionStore_def)
  have src: "c_source_file_type (hd (conversations sessionStore)) = ''jsonl''
             \<and> c_source_file_path (hd (conversations sessionStore)) = ''log.jsonl''
             \<and> okLog ''log.jsonl'' \<noteq> None"
    by (simp add: sessionStore_def okLog_def fileAt_def)
  note th = extraction_rerun_inserts_nothing[where L = testLib and fs = okLog and c = 1
      and db = sessionStore and filePath = "''log.jsonl''" and res = ?res1 and db' = extractedStore
      and rep = "FromFile ?res1" and db'' = extractedStore]
  have again: "processConversationEntries testLib okLog 1 extractedStore
     = (Some (Inr (FromFile \<lparr>codeBlocks = 0, toolCalls = 0, toolResults = 0, jsonObjects = 0, skippedCount = 1\<rparr>)),
        extractedStore)"
    using th run conv src n by auto
  have againj: "processJSONLFile testLib okLog ''log.jsonl'' 1 extractedStore
     = (Some (Inr \<lparr>codeBlocks = 0, toolCalls = 0, toolResults = 0, jsonObjects = 0, skippedCount = 1\<rparr>),
        extractedStore)"
    using th rj n by simp
  have s: "fst (processConversationEntries testLib noFiles 1 transcriptStore) = Some (Inr (FromEntries ?rep1))"
    by code_simp
  then have srun: "processConversationEntries testLib noFiles 1 transcriptStore
                   = (Some (Inr (FromEntries ?rep1)), scannedStore)"
    by (simp add: scannedStore_def prod_eq_iff)
  have sconv: "find (\<lambda>conv. c_id conv = 1) (conversations transcriptStore) = Some (hd (conversations transcriptStore))"
    by (simp add: transcriptStore_def)
  have ssrc: "c_source_file_type (hd (conversations transcriptStore)) \<noteq> ''jsonl''"
    by (simp add: transcriptStore_def)
  have sn: "length (storedBlocksOf transcriptStore 1) = 1" by code_simp
  note sth = extraction_rerun_inserts_nothing[where L = testLib and fs = noFiles and c = 1
      and db = transcriptStore and rep = "FromEntries ?rep1" and db'' = scannedStore]
  have sagain: "processConversationEntries testLib noFiles 1 scannedStore
     = (Some (Inr (FromEntries \<lparr>er_codeBlocks = 0, er_jsonObjects = 0, er_skipped = 1\<rparr>)), scannedStore)"
    using sth srun sconv ssrc sn by auto
  have slen: "length (artifacts scannedStore) = 1"
    using sth srun by (auto simp: transcriptStore_def)
  show ?thesis using run rows again againj srun slen sagain by simp
qed

text \<open>
  The claim as stated fails on scenario A: the first run reports two items, the call
  and its result, and the second run reports one skip, not two.
\<close>

theorem rerun_counts_one_skip_for_two_items:
  "(fst (processConversationEntries testLib okLog 1 sessionStore),
    fst (processConversationEntries testLib okLog 1 extractedStore),
    map a_type (artifacts extractedStore),
    artifacts (snd (processConversationEntries testLib okLog 1 extractedStore)) = artifacts extractedStore)
   = (Some (Inr (FromFile \<lparr>codeBlocks = 0, toolCalls = 1, toolResults = 1, jsonObjects = 0, skippedCount = 0\<rparr>)),
      Some (Inr (FromFile \<lparr>codeBlocks = 0, toolCalls = 0, toolResults = 0, jsonObjects = 0, skippedCount = 1\<rparr>)),
      [''tool_call'', ''tool_result''], True)"
  by code_simp

section \<open>Extraction: outcome and prompt context on concrete logs\<close>

text \<open>
  Claim C1 (the code departs from it). The result of \<^verbatim>\<open>t1\<close> is found on line 1 and
  attached to the call, its payload being the empty string; the \<^verbatim>\<open>tool_call\<close>
  row is stored with outcome \<^verbatim>\<open>pending\<close>, and no \<^verbatim>\<open>tool_result\<close> row is stored.
\<close>

theorem empty_result_stored_as_pending:
  "(map fst (toolCallsOf testLib emptyResultLog ''log.jsonl''),
    map tc_resultLineIndex (map snd (toolCallsOf testLib emptyResultLog ''log.jsonl'')),
    map tc_isError (map snd (toolCallsOf testLib emptyResultLog ''log.jsonl'')),
    map a_type (artifacts (snd (processJSONLFile testLib emptyResultLog ''log.jsonl'' 1 emptyStore))),
    map a_outcome (artifacts (snd (processJSONLFile testLib emptyResultLog ''log.jsonl'' 1 emptyStore))))
   = ([JStr ''t1''], [Some 1], [JUndef], [''tool_call''], [JStr ''pending''])"
  by code_simp

text \<open>
  Claim C9 (the code departs from it). The invocation is on line 1, the entry on line 0
  is the user's message with the text \<^verbatim>\<open>please read a.txt\<close>, and the prompt context
  of the stored \<^verbatim>\<open>tool_call\<close> row is \<^verbatim>\<open>null\<close>: \<^verbatim>\<open>getPromptContext\<close> reads the
  property \<^verbatim>\<open>content\<close> of the decoded line, where the text is under
  \<^verbatim>\<open>message.content\<close>.
\<close>

theorem prompt_context_of_event_log_is_null:
  "(map tc_lineIndex (map snd (toolCallsOf testLib requestLog ''log.jsonl'')),
    extractContent testLib (itemAt (decodeAll testLib (nonEmptyLines (joinWith [newline]
        [showJs askEntry, showJs useEntry, showJs okEntry]))) 0),
    getPromptContext (decodeAll testLib (nonEmptyLines (joinWith [newline]
        [showJs askEntry, showJs useEntry, showJs okEntry]))) 1,
    map a_type (artifacts (snd (processJSONLFile testLib requestLog ''log.jsonl'' 1 emptyStore))),
    map a_promptContext (artifacts (snd (processJSONLFile testLib requestLog ''log.jsonl'' 1 emptyStore))))
   = ([1], Some (JStr ''please read a.txt''), Some JNull, [''tool_call'', ''tool_result''], [JNull, JNull])"
  by code_simp

section \<open>Extraction: no JSON-object artifacts\<close>

lemma braceMatches_shape:
  assumes "text = pre @ underWay acc @ cs" "wellStarted (length pre) acc"
    "pos = length pre + length (underWay acc)"
    "(start, s) \<in> set (braceMatches pos acc cs)"
  shows "\<exists>ps body ss. text = ps @ s @ ss \<and> length ps = start
           \<and> s = openBrace # body @ [closeBrace] \<and> closeBrace \<notin> set body"
  using assms
proof (induction cs arbitrary: pre acc pos)
  case Nil
  then show ?case by simp
next
  case (Cons c cs)
  show ?case
  proof (cases acc)
    case None
    show ?thesis
    proof (cases "c = openBrace")
      case True
      have m: "(start, s) \<in> set (braceMatches (Suc pos) (Some (pos, [c])) cs)"
        using Cons.prems(4) None True by (simp add: openBrace_def)
      have "text = pre @ underWay (Some (pos, [c])) @ cs" using Cons.prems(1) None by simp
      moreover have "wellStarted (length pre) (Some (pos, [c]))"
        using Cons.prems(3) None True by simp
      moreover have "Suc pos = length pre + length (underWay (Some (pos, [c])))"
        using Cons.prems(3) None by simp
      ultimately show ?thesis using Cons.IH[of pre "Some (pos, [c])" "Suc pos"] m by blast
    next
      case False
      have m: "(start, s) \<in> set (braceMatches (Suc pos) None cs)"
        using Cons.prems(4) None False by (simp add: openBrace_def)
      have "text = (pre @ [c]) @ underWay None @ cs" using Cons.prems(1) None by simp
      moreover have "wellStarted (length (pre @ [c])) None" by simp
      moreover have "Suc pos = length (pre @ [c]) + length (underWay None)"
        using Cons.prems(3) None by simp
      ultimately show ?thesis using Cons.IH[of "pre @ [c]" None "Suc pos"] m by blast
    qed
  next
    case (Some sm)
    obtain st0 m where sm: "sm = (st0, m)" by (cases sm)
    obtain body where st0: "st0 = length pre" and b: "rev m = openBrace # body" "closeBrace \<notin> set body"
      using Cons.prems(2) Some sm by auto
    show ?thesis
    proof (cases "c = closeBrace")
      case True
      have "(start, s) = (st0, rev (c # m)) \<or> (start, s) \<in> set (braceMatches (Suc pos) None cs)"
        using Cons.prems(4) Some sm True by (simp add: closeBrace_def)
      then show ?thesis
      proof
        assume "(start, s) = (st0, rev (c # m))"
        then have "start = length pre" "s = openBrace # body @ [closeBrace]"
          using st0 b True by simp_all
        moreover have "text = pre @ (openBrace # body @ [closeBrace]) @ cs"
          using Cons.prems(1) Some sm b True by simp
        ultimately show ?thesis using b(2) by blast
      next
        assume m: "(start, s) \<in> set (braceMatches (Suc pos) None cs)"
        have "text = (pre @ rev m @ [c]) @ underWay None @ cs" using Cons.prems(1) Some sm by simp
        moreover have "wellStarted (length (pre @ rev m @ [c])) None" by simp
        moreover have "Suc pos = length (pre @ rev m @ [c]) + length (underWay None)"
          using Cons.prems(3) Some sm by simp
        ultimately show ?thesis using Cons.IH[of "pre @ rev m @ [c]" None "Suc pos"] m by blast
      qed
    next
      case False
      have m': "(start, s) \<in> set (braceMatches (Suc pos) (Some (st0, c # m)) cs)"
        using Cons.prems(4) Some sm False by (simp add: closeBrace_def)
      have "text = pre @ underWay (Some (st0, c # m)) @ cs" using Cons.prems(1) Some sm by simp
      moreover have "wellStarted (length pre) (Some (st0, c # m))"
        using st0 b False by simp
      moreover have "Suc pos = length pre + length (underWay (Some (st0, c # m)))"
        using Cons.prems(3) Some sm by simp
      ultimately show ?thesis using Cons.IH[of pre "Some (st0, c # m)" "Suc pos"] m' by blast
    qed
  qed
qed

lemma extractJsonObjects_matches:
  assumes "m \<in> set (extractJsonObjects L text)"
  shows "json_parse L (jm_content m) = Some (jm_parsed m)
         \<and> isObjectType (jm_parsed m) \<and> jm_parsed m \<noteq> JNull \<and> object_keys L (jm_parsed m) \<noteq> []
         \<and> (\<exists>ps body ss. text = ps @ jm_content m @ ss \<and> length ps = jm_startIndex m
               \<and> jm_content m = openBrace # body @ [closeBrace] \<and> closeBrace \<notin> set body)"
proof -
  obtain sm where sm: "sm \<in> set (braceMatches 0 None text)" and k: "m \<in> set (keepJsonMatch L sm)"
    using assms by (auto simp: extractJsonObjects_def)
  have kept: "json_parse L (snd sm) = Some (jm_parsed m) \<and> isObjectType (jm_parsed m)
       \<and> jm_parsed m \<noteq> JNull \<and> object_keys L (jm_parsed m) \<noteq> []
       \<and> jm_content m = snd sm \<and> jm_startIndex m = fst sm"
    using k by (auto simp: keepJsonMatch_def split: option.splits if_splits)
  have "(fst sm, snd sm) \<in> set (braceMatches 0 None text)" using sm by simp
  then have "\<exists>ps body ss. text = ps @ snd sm @ ss \<and> length ps = fst sm
           \<and> snd sm = openBrace # body @ [closeBrace] \<and> closeBrace \<notin> set body"
    using braceMatches_shape[where pre = "[]" and acc = None and cs = "text" and pos = 0
        and start = "fst sm" and s = "snd sm"] by simp
  then show ?thesis using kept by simp
qed

lemma rowOfCall_type: "rowOfCall L c kv a \<Longrightarrow> a_type a = ''tool_call'' \<or> a_type a = ''tool_result''"
  by (auto simp: rowOfCall_def artifactRow_key toolCallArtifact_key toolResultArtifact_key)

lemma processJSONLFile_types:
  "a \<in> set (artifacts (snd (processJSONLFile L fs filePath c db))) \<Longrightarrow>
   a \<in> set (artifacts db) \<or> a_type a \<in> extractedTypes"
proof -
  assume "a \<in> set (artifacts (snd (processJSONLFile L fs filePath c db)))"
  then consider "a \<in> set (artifacts db)"
    | kv where "rowOfCall L c kv a"
    | "a_type a = ''code_block''"
    using processJSONLFile_rows by blast
  then show ?thesis
  proof cases
    case 2
    then show ?thesis using rowOfCall_type[OF 2] by (auto simp: extractedTypes_def)
  qed (simp_all add: extractedTypes_def)
qed

lemma processJSONLFile_jsonObjects:
  assumes "fst (processJSONLFile L fs filePath c db) = Some (Inr res)"
  shows "jsonObjects res = 0"
proof -
  obtain content where some: "fs filePath = Some content"
    using assms by (cases "fs filePath") (auto simp: processJSONLFile_def)
  let ?lines = "nonEmptyLines content"
  let ?D = "decodeAll L ?lines"
  let ?calls = "loopUntilThrow (processToolCall L c ?D) (firstPass L 0 ?lines []) (noResults, db)"
  let ?blocks = "loopUntilThrow (scanEntry L c ?D) (enumerate 0 ?D) (fst ?calls)"
  have res: "res = fst (fst ?blocks)"
    using assms some by (auto simp: processJSONLFile_def Let_def split: if_splits)
  have "jsonObjects (fst (fst ?calls)) = jsonObjects (fst (noResults, db))"
    by (rule loop_counter) (rule processToolCall_jsonObjects)
  moreover have "jsonObjects (fst (fst ?blocks)) = jsonObjects (fst (fst ?calls))"
    by (rule loop_counter) (rule scanEntry_jsonObjects)
  ultimately show ?thesis using res by (simp add: noResults_def)
qed

lemma processConversationEntries_types:
  assumes "a \<in> set (artifacts (snd (processConversationEntries L fs c db)))"
  shows "a \<in> set (artifacts db) \<or> a_type a \<in> extractedTypes"
proof (cases "find (\<lambda>conv. c_id conv = c) (conversations db)")
  case None
  then show ?thesis using assms by (simp add: processConversationEntries_def)
next
  case (Some conversation)
  show ?thesis
  proof (cases "c_source_file_type conversation = ''jsonl'' \<and> fs (c_source_file_path conversation) \<noteq> None")
    case True
    then have "snd (processConversationEntries L fs c db)
               = snd (processJSONLFile L fs (c_source_file_path conversation) c db)"
      using Some by (simp add: processConversationEntries_def split: prod.splits)
    then show ?thesis using assms processJSONLFile_types by simp
  next
    case False
    let ?rows = "storedRows db c"
    let ?scanned = "loopUntilThrow (scanRow L c ?rows) (enumerate 0 ?rows)
                      (\<lparr>er_codeBlocks = 0, er_jsonObjects = 0, er_skipped = 0\<rparr>, db)"
    have step: "\<forall>x st a. a \<in> set (artifacts (snd (fst (scanRow L c ?rows x st)))) \<longrightarrow>
        a \<in> set (artifacts (snd st)) \<or> a_type a = ''code_block''"
      using scanRow_rows by blast
    have "a \<in> set (artifacts (snd (fst ?scanned)))"
      using assms Some False by (auto simp: processConversationEntries_def Let_def storedRows_def split: if_splits)
    then have "a \<in> set (artifacts db) \<or> (\<exists>x\<in>set (enumerate 0 ?rows). a_type a = ''code_block'')"
      using loop_rows[where body = "scanRow L c ?rows" and Q = "\<lambda>x a. a_type a = ''code_block''"
          and a = a and xs = "enumerate 0 ?rows"
          and st = "(\<lparr>er_codeBlocks = 0, er_jsonObjects = 0, er_skipped = 0\<rparr>, db)", OF step]
      by simp
    then show ?thesis by (auto simp: extractedTypes_def)
  qed
qed

lemma processConversationEntries_jsonObjects:
  assumes "fst (processConversationEntries L fs c db) = Some (Inr rep)"
  shows "reportedJsonObjects rep = 0"
proof (cases "find (\<lambda>conv. c_id conv = c) (conversations db)")
  case None
  then show ?thesis using assms by (simp add: processConversationEntries_def)
next
  case (Some conversation)
  show ?thesis
  proof (cases "c_source_file_type conversation = ''jsonl'' \<and> fs (c_source_file_path conversation) \<noteq> None")
    case True
    then have "fst (processConversationEntries L fs c db)
               = map_option (map_sum id FromFile) (fst (processJSONLFile L fs (c_source_file_path conversation) c db))"
      using Some by (simp add: processConversationEntries_def split: prod.splits)
    then obtain res where "fst (processJSONLFile L fs (c_source_file_path conversation) c db) = Some (Inr res)"
      and "rep = FromFile res"
      using assms
      by (cases "fst (processJSONLFile L fs (c_source_file_path conversation) c db)")
         (auto simp: map_sum_def split: sum.splits)
    then show ?thesis using processJSONLFile_jsonObjects by simp
  next
    case False
    let ?rows = "storedRows db c"
    let ?scanned = "loopUntilThrow (scanRow L c ?rows) (enumerate 0 ?rows)
                      (\<lparr>er_codeBlocks = 0, er_jsonObjects = 0, er_skipped = 0\<rparr>, db)"
    have "rep = FromEntries (fst (fst ?scanned))"
      using assms Some False by (auto simp: processConversationEntries_def Let_def storedRows_def split: if_splits)
    moreover have "er_jsonObjects (fst (fst ?scanned))
        = er_jsonObjects (fst (\<lparr>er_codeBlocks = 0, er_jsonObjects = 0, er_skipped = 0\<rparr>, db))"
      by (rule loop_counter) (rule scanRow_jsonObjects)
    ultimately show ?thesis by simp
  qed
qed

text \<open>
  Claim C10. The JSON-object scanner returns only substrings of the text that run from
  an opening brace to the first closing brace after it, decode, and decode to a
  non-null value of type object with at least one key. Neither extraction path calls
  it: every row \<^verbatim>\<open>processJSONLFile\<close> or \<^verbatim>\<open>processConversationEntries\<close> adds is a
  tool call, a tool result or a code block, never a JSON object, and the count of JSON
  objects of every report is zero.
\<close>

theorem no_json_object_artifacts:
  "(\<forall>m\<in>set (extractJsonObjects L str).
      json_parse L (jm_content m) = Some (jm_parsed m)
      \<and> isObjectType (jm_parsed m) \<and> jm_parsed m \<noteq> JNull \<and> object_keys L (jm_parsed m) \<noteq> []
      \<and> (\<exists>ps body ss. str = ps @ jm_content m @ ss \<and> length ps = jm_startIndex m
            \<and> jm_content m = openBrace # body @ [closeBrace] \<and> closeBrace \<notin> set body))
   \<and> (\<forall>a\<in>set (artifacts (snd (processJSONLFile L fs filePath c db))).
         a \<in> set (artifacts db) \<or> a_type a \<in> extractedTypes)
   \<and> (\<forall>a\<in>set (artifacts (snd (processConversationEntries L fs c db))).
         a \<in> set (artifacts db) \<or> a_type a \<in> extractedTypes)
   \<and> (\<forall>res. fst (processJSONLFile L fs filePath c db) = Some (Inr res) \<longrightarrow> jsonObjects res = 0)
   \<and> (\<forall>rep. fst (processConversationEntries L fs c db) = Some (Inr rep)
         \<longrightarrow> reportedJsonObjects rep = 0)
   \<and> ''json_object'' \<notin> extractedTypes"
proof (intro conjI ballI allI impI)
  fix m assume "m \<in> set (extractJsonObjects L str)"
  then have all: "json_parse L (jm_content m) = Some (jm_parsed m)
         \<and> isObjectType (jm_parsed m) \<and> jm_parsed m \<noteq> JNull \<and> object_keys L (jm_parsed m) \<noteq> []
         \<and> (\<exists>ps body ss. str = ps @ jm_content m @ ss \<and> length ps = jm_startIndex m
               \<and> jm_content m = openBrace # body @ [closeBrace] \<and> closeBrace \<notin> set body)"
    by (rule extractJsonObjects_matches)
  show "json_parse L (jm_content m) = Some (jm_parsed m)" using all by blast
  show "isObjectType (jm_parsed m)" using all by blast
  show "jm_parsed m \<noteq> JNull" using all by blast
  show "object_keys L (jm_parsed m) \<noteq> []" using all by blast
  show "\<exists>ps body ss. str = ps @ jm_content m @ ss \<and> length ps = jm_startIndex m
               \<and> jm_content m = openBrace # body @ [closeBrace] \<and> closeBrace \<notin> set body"
    using all by blast
next
  fix a assume "a \<in> set (artifacts (snd (processJSONLFile L fs filePath c db)))"
  then show "a \<in> set (artifacts db) \<or> a_type a \<in> extractedTypes"
    by (rule processJSONLFile_types)
next
  fix a assume "a \<in> set (artifacts (snd (processConversationEntries L fs c db)))"
  then show "a \<in> set (artifacts db) \<or> a_type a \<in> extractedTypes"
    by (rule processConversationEntries_types)
next
  fix res assume "fst (processJSONLFile L fs filePath c db) = Some (Inr res)"
  then show "jsonObjects res = 0" by (rule processJSONLFile_jsonObjects)
next
  fix rep assume "fst (processConversationEntries L fs c db) = Some (Inr rep)"
  then show "reportedJsonObjects rep = 0" by (rule processConversationEntries_jsonObjects)
next
  show "''json_object'' \<notin> extractedTypes" by (simp add: extractedTypes_def)
qed

theorem no_json_object_artifacts_witness:
  "extractJsonObjects testLib scannedText = [noteMatch]
   \<and> json_parse testLib (jm_content noteMatch) = Some (jm_parsed noteMatch)
   \<and> object_keys testLib (jm_parsed noteMatch) \<noteq> []
   \<and> map a_type (artifacts okStore) = [''tool_call'', ''tool_result'']
   \<and> fst (processJSONLFile testLib okLog ''log.jsonl'' 1 emptyStore)
       = Some (Inr \<lparr>codeBlocks = 0, toolCalls = 1, toolResults = 1, jsonObjects = 0, skippedCount = 0\<rparr>)
   \<and> fst (processConversationEntries testLib noFiles 1 transcriptStore)
       = Some (Inr (FromEntries \<lparr>er_codeBlocks = 1, er_jsonObjects = 0, er_skipped = 0\<rparr>))
   \<and> map a_type (artifacts (snd (processConversationEntries testLib noFiles 1 transcriptStore)))
       = [''code_block'']
   \<and> map a_promptContext (artifacts (snd (processConversationEntries testLib noFiles 1 transcriptStore)))
       = [JStr ''print one'']"
proof -
  have scan: "extractJsonObjects testLib scannedText = [noteMatch]" by code_simp
  then have m: "noteMatch \<in> set (extractJsonObjects testLib scannedText)" by simp
  note th = no_json_object_artifacts[where L = testLib and str = scannedText and fs = noFiles
      and filePath = "''log.jsonl''" and c = 1 and db = transcriptStore]
  have parsed: "json_parse testLib (jm_content noteMatch) = Some (jm_parsed noteMatch)
                \<and> object_keys testLib (jm_parsed noteMatch) \<noteq> []"
    using th m by blast
  have rows: "map a_type (artifacts okStore) = [''tool_call'', ''tool_result'']" by code_simp
  have fromFile: "fst (processJSONLFile testLib okLog ''log.jsonl'' 1 emptyStore)
       = Some (Inr \<lparr>codeBlocks = 0, toolCalls = 1, toolResults = 1, jsonObjects = 0, skippedCount = 0\<rparr>)"
    by code_simp
  have stored: "(fst (processConversationEntries testLib noFiles 1 transcriptStore),
        map a_type (artifacts (snd (processConversationEntries testLib noFiles 1 transcriptStore))),
        map a_promptContext (artifacts (snd (processConversationEntries testLib noFiles 1 transcriptStore))))
       = (Some (Inr (FromEntries \<lparr>er_codeBlocks = 1, er_jsonObjects = 0, er_skipped = 0\<rparr>)),
          [''code_block''], [JStr ''print one''])"
    by code_simp
  show ?thesis using scan parsed rows fromFile stored by simp
qed

end
